theory Spec2Isabelle
  imports Main
begin

section \<open>Errors\<close>

text \<open>
  The C++ exceptions thrown by the modelled functions: \<open>std::logic_error\<close>,
  \<open>std::runtime_error\<close> (with their messages) and \<open>std::out_of_range\<close>; \<open>GrpcError\<close> is
  the error raised for a status that is not OK, with its code and message. \<open>Undefined\<close>
  stands for an operation whose behaviour C++ leaves undefined. A function that can throw
  returns \<open>error + 'a\<close>, with \<open>Inl\<close> for the exception.
\<close>

datatype error =
    LogicError string
  | RuntimeError string
  | OutOfRange
  | GrpcError int string
  | Undefined

section \<open>fileutils.cpp: textual path operations\<close>

text \<open>
  Paths are C strings and \<open>std::string\<close>s, modelled as \<open>string\<close> (a list of bytes).
  \<open>c_at s i\<close> is the read \<open>s[i]\<close>: the byte at \<open>i\<close> inside the string and the terminating
  NUL at \<open>i = length s\<close> (and, in the model only, beyond it).
\<close>

definition c_at :: "string \<Rightarrow> nat \<Rightarrow> char" where
  "c_at s i = (if i < length s then s ! i else CHR 0x00)"

subsection \<open>normalize_path\<close>

text \<open>
  The \<open>while (path[0] != '\0')\<close> loop of \<open>FileUtils::normalize_path\<close>: \<open>path\<close> is the rest of
  the input, \<open>segments\<close> the vector built so far. \<open>strchr(path, '/')\<close> splits the rest at its
  first slash: \<open>takeWhile\<close> is the segment, \<open>dropWhile\<close> the rest from the slash on (empty when
  there is no slash, which is the \<open>break\<close>). \<open>update_segments\<close> is the \<open>if\<close>/\<open>else if\<close> of the
  loop body that pops, pushes or skips.
\<close>

lemma dropWhile_tail_shorter: "dropWhile P xs = y # ys \<Longrightarrow> length ys < length xs"
proof -
  assume "dropWhile P xs = y # ys"
  then have "Suc (length ys) = length (dropWhile P xs)"
    by simp
  also have "\<dots> \<le> length xs"
    by (rule length_dropWhile_le)
  finally show ?thesis
    by simp
qed

definition update_segments :: "string \<Rightarrow> string list \<Rightarrow> string list" where
  "update_segments segment segments =
     (if segment = ''..'' \<and> segments \<noteq> [] \<and> last segments \<noteq> ''..'' then butlast segments
      else if segment \<noteq> ''.'' \<and> segment \<noteq> [] then segments @ [segment]
      else segments)"

function normalize_loop :: "string \<Rightarrow> string list \<Rightarrow> string list" where
  "normalize_loop path segments =
     (if path = [] then segments
      else
        let segment = takeWhile (\<lambda>c. c \<noteq> CHR ''/'') path;
            slash = dropWhile (\<lambda>c. c \<noteq> CHR ''/'') path;
            segments' = update_segments segment segments
        in (case slash of
              [] \<Rightarrow> segments'
            | _ # path' \<Rightarrow> normalize_loop path' segments'))"
  by pat_completeness auto
termination
  by (relation "measure (\<lambda>(path, segments). length path)")
    (auto dest: dropWhile_tail_shorter dropWhile_tail_shorter [OF sym])

declare normalize_loop.simps [simp del]

text \<open>
  The tail of \<open>normalize_path\<close>: every segment followed by a slash, the last slash popped.
\<close>

definition join_segments :: "string list \<Rightarrow> string" where
  "join_segments segments =
     (if segments \<noteq> [] then butlast (concat (map (\<lambda>segment. segment @ ''/'') segments))
      else [])"

definition normalize_path :: "string \<Rightarrow> string" where
  "normalize_path path =
     (let global = (c_at path 0 = CHR ''/'');
          segments = normalize_loop path []
      in (if global then ''/'' else []) @ join_segments segments)"

subsection \<open>has_path_prefix\<close>

definition has_path_prefix :: "string \<Rightarrow> string \<Rightarrow> bool" where
  "has_path_prefix path prefix =
     (if prefix = [] then False
      else if path = prefix then True
      else
        let prefix' = (if last prefix \<noteq> CHR ''/'' then prefix @ ''/'' else prefix)
        in take (length prefix') path = prefix')"

subsection \<open>make_path_relative\<close>

text \<open>
  The first \<open>while\<close> loop of \<open>FileUtils::make_path_relative\<close>, with its four early returns
  (\<open>Inl\<close>); \<open>Inr (i, lastMatchingSegmentEnd)\<close> is the state in which the loop is left.
\<close>

function relative_scan :: "string \<Rightarrow> string \<Rightarrow> nat \<Rightarrow> nat \<Rightarrow> string + nat \<times> nat" where
  "relative_scan path workingDirectory i lastMatchingSegmentEnd =
     (if i < length path \<and> c_at path i = c_at workingDirectory i then
        (if c_at workingDirectory (i + 1) = CHR 0x00 then
           (if length path = i + 1 then
              Inl (if c_at path i = CHR ''/'' then ''./'' else ''.'')
            else if length path = i + 2 \<and> c_at path (i + 1) = CHR ''/'' then Inl ''./''
            else if c_at path i = CHR ''/'' then Inl (drop (i + 1) path)
            else if c_at path (i + 1) = CHR ''/'' then Inl (drop (i + 2) path)
            else relative_scan path workingDirectory (i + 1) lastMatchingSegmentEnd)
         else if c_at path i = CHR ''/'' then relative_scan path workingDirectory (i + 1) i
         else relative_scan path workingDirectory (i + 1) lastMatchingSegmentEnd)
      else Inr (i, lastMatchingSegmentEnd))"
  by pat_completeness auto
termination
  by (relation "measure (\<lambda>(path, workingDirectory, i, l). length path - i)") auto

declare relative_scan.simps [simp del]

text \<open>
  The second loop: one more \<open>..\<close> for every slash of the working directory from \<open>i\<close> on that
  is not its last byte.
\<close>

function count_dotdots :: "string \<Rightarrow> nat \<Rightarrow> nat \<Rightarrow> nat" where
  "count_dotdots workingDirectory i dotdotsNeeded =
     (if c_at workingDirectory i \<noteq> CHR 0x00 then
        count_dotdots workingDirectory (i + 1)
          (if c_at workingDirectory i = CHR ''/'' \<and> c_at workingDirectory (i + 1) \<noteq> CHR 0x00
           then dotdotsNeeded + 1 else dotdotsNeeded)
      else dotdotsNeeded)"
  by pat_completeness auto
termination
  by (relation "measure (\<lambda>(workingDirectory, i, d). length workingDirectory - i)")
    (auto simp: c_at_def split: if_splits)

declare count_dotdots.simps [simp del]

text \<open>
  The last loop writes a slash at \<open>j * 3 + 2\<close> for \<open>j = 0 ..< dotdotsNeeded - 1\<close>.
\<close>

definition put_slashes :: "nat \<Rightarrow> string \<Rightarrow> string" where
  "put_slashes dotdotsNeeded result =
     fold (\<lambda>j r. r[j * 3 + 2 := CHR ''/'']) [0 ..< dotdotsNeeded - 1] result"

text \<open>
  \<open>make_path_relative\<close> reads the global \<open>RECC_PROJECT_ROOT\<close>, here the first argument. The
  working directory is a \<open>const char *\<close> that may be null: \<open>None\<close>. The function throws
  \<open>std::logic_error\<close> for a working directory that is not absolute.
\<close>

definition make_path_relative :: "string \<Rightarrow> string \<Rightarrow> string option \<Rightarrow> error + string" where
  "make_path_relative RECC_PROJECT_ROOT path workingDirectory =
     (case workingDirectory of
        None \<Rightarrow> Inr path
      | Some wd \<Rightarrow>
          if c_at wd 0 = CHR 0x00 \<or> length path = 0 \<or> c_at path 0 \<noteq> CHR ''/'' \<or>
             \<not> has_path_prefix path RECC_PROJECT_ROOT
          then Inr path
          else if c_at wd 0 \<noteq> CHR ''/'' then
            Inl (LogicError ''Working directory must be null or an absolute path'')
          else
            (case relative_scan path wd 0 0 of
               Inl r \<Rightarrow> Inr r
             | Inr (i, lastMatchingSegmentEnd) \<Rightarrow>
                 if i = length path \<and> c_at wd i = CHR ''/'' \<and> c_at wd (i + 1) = CHR 0x00
                 then Inr ''.''
                 else
                   let prefix = (i = length path \<and> c_at wd i = CHR ''/'');
                       lastMatchingSegmentEnd' = (if prefix then i else lastMatchingSegmentEnd);
                       i' = (if prefix then i + 1 else i);
                       dotdotsNeeded = count_dotdots wd i' 1;
                       result = replicate (dotdotsNeeded * 3 - 1) CHR ''.'' @
                                drop lastMatchingSegmentEnd' path
                   in Inr (put_slashes dotdotsNeeded result)))"

subsection \<open>make_path_absolute\<close>

text \<open>
  \<open>make_path_absolute\<close> appends \<open>cwd\<close>, a slash and the path, normalizes, and puts back the
  trailing slash of the path that \<open>normalize_path\<close> removed. (\<open>normalizedPath.back()\<close> reads
  the last byte; for an empty \<open>normalizedPath\<close>, which C++ leaves undefined, the model reads
  NUL.)
\<close>

definition make_path_absolute :: "string \<Rightarrow> string \<Rightarrow> string" where
  "make_path_absolute path cwd =
     (if path = [] \<or> hd path = CHR ''/'' then path
      else
        let fullPath = cwd @ ''/'' @ path;
            normalizedPath = normalize_path fullPath
        in if last path = CHR ''/'' \<and> c_at normalizedPath (length normalizedPath - 1) \<noteq> CHR ''/''
           then normalizedPath @ ''/'' else normalizedPath)"

section \<open>grpccontext.cpp and grpcretry.cpp: the retry driver\<close>

subsection \<open>Statuses and numbers as text\<close>

text \<open>
  A \<open>grpc::Status\<close> is its code (the integer value of the \<open>grpc::StatusCode\<close>) and its
  message. \<open>ok\<close> is \<open>Status::ok()\<close>. The codes are those of the gRPC library:
  \<open>OK = 0\<close>, \<open>NOT_FOUND = 5\<close>, \<open>UNAUTHENTICATED = 16\<close>.
\<close>

record status =
  error_code :: int
  error_message :: string

definition ok :: "status \<Rightarrow> bool" where
  "ok s = (error_code s = 0)"

definition NOT_FOUND :: int where
  "NOT_FOUND = 5"

definition UNAUTHENTICATED :: int where
  "UNAUTHENTICATED = 16"

text \<open>\<open>std::to_string\<close> on an \<open>int\<close>: the decimal digits, with a minus sign below zero.\<close>

fun digits :: "nat \<Rightarrow> string" where
  "digits n = (if n < 10 then [''0123456789'' ! n] else digits (n div 10) @ [''0123456789'' ! (n mod 10)])"

declare digits.simps [simp del]

definition to_string :: "int \<Rightarrow> string" where
  "to_string i = (if i < 0 then CHR ''-'' # digits (nat (- i)) else digits (nat i))"

subsection \<open>GrpcContext\<close>

text \<open>
  What a call does to the outside is recorded as a trace of events: a new client context
  (with its credentials), an invocation of the wrapped call, a log line, a sleep, a token
  refresh, a \<open>CancelOperation\<close> call. The \<open>AuthBase\<close> object behind \<open>d_authSession\<close> is not
  part of these sources; of it the code uses \<open>get_access_token\<close>, modelled as the token the
  session holds, and \<open>refresh_current_token\<close>, recorded as the event \<open>AuthRefresh\<close>.
  \<open>d_authSession\<close> is a pointer: \<open>None\<close> when null.
\<close>

datatype event =
    NewClientContext "string option"
  | Invocation nat
  | Log string
  | LogWarning string
  | LogError string
  | Sleep int
  | AuthRefresh
  | CancelOperation string

record grpc_context =
  d_authSession :: "string option"
  d_action_id :: string

text \<open>
  \<open>GrpcContext::new_client_context\<close>: a fresh \<open>grpc::ClientContext\<close>, carrying the access
  token as call credentials when there is a session. The event holds the credentials.
\<close>

definition new_client_context :: "grpc_context \<Rightarrow> event" where
  "new_client_context ctx = NewClientContext (d_authSession ctx)"

text \<open>\<open>GrpcContext::auth_refresh\<close>: refreshes the session's token, or throws without one.\<close>

definition auth_refresh :: "grpc_context \<Rightarrow> event list \<times> (error + unit)" where
  "auth_refresh ctx =
     (if d_authSession ctx \<noteq> None then ([AuthRefresh], Inr ())
      else ([], Inl (RuntimeError ''An AuthSession was not set'')))"

subsection \<open>grpc_retry\<close>

text \<open>
  \<open>static_cast<int>(RECC_RETRY_DELAY * pow(2.0, n_attempts))\<close>. The product is computed in
  \<open>double\<close>: \<open>pow\<close> is finite up to \<open>2^1023\<close>, and a 32-bit delay times a power of two is
  exact. The conversion to \<open>int\<close> is defined only for a value in the range of \<open>int\<close>;
  \<open>None\<close> is the undefined conversion.
\<close>

definition time_delay :: "int \<Rightarrow> int \<Rightarrow> int option" where
  "time_delay RECC_RETRY_DELAY n_attempts =
     (let d = RECC_RETRY_DELAY * 2 ^ nat n_attempts
      in if n_attempts \<le> 1023 \<and> - (2 ^ 31) \<le> d \<and> d < 2 ^ 31 then Some d else None)"

text \<open>
  How a call ends: it returns a value, it ends the process (\<open>exit\<close> with a code), or it has
  not returned within what is observed of the run (\<open>Pending\<close>: it blocks, or the fuel of a
  bounded recursion is used up). An exception is a returned \<open>Inl\<close>.
\<close>

datatype 'a call = Returns 'a | Exits int | Pending

text \<open>
  The local variables of \<open>grpc_retry\<close>, with the number of invocations of the wrapped call
  made so far and the trace. The wrapped call is given by how it ends: \<open>rpc k\<close> is the end of
  its invocation number \<open>k\<close>, counted from 0, with the status it returns. The \<open>int\<close>
  variables are integers here: \<open>n_attempts\<close> never passes \<open>RECC_RETRY_LIMIT + 1\<close>, which is
  taken to be in the range of \<open>int\<close>.
\<close>

record retry_state =
  n_attempts :: int
  refreshed :: bool
  last_status :: status
  invocations :: nat
  trace :: "event list"

text \<open>
  The body of the \<open>do\<close> loop. With the new state it gives \<open>Some\<close> result when the function
  is left inside the body (the wrapped call does not return, the \<open>return\<close> on an OK status,
  or the undefined conversion), and \<open>None\<close> when control reaches the \<open>while\<close> condition.
\<close>

definition retry_body ::
  "int \<Rightarrow> int \<Rightarrow> (nat \<Rightarrow> status call) \<Rightarrow> grpc_context \<Rightarrow> retry_state \<Rightarrow>
   retry_state \<times> (error + unit) call option" where
  "retry_body RECC_RETRY_LIMIT RECC_RETRY_DELAY rpc ctx s =
     (let s0 = s\<lparr>invocations := invocations s + 1,
                 trace := trace s @ [new_client_context ctx, Invocation (invocations s)]\<rparr>
      in case rpc (invocations s) of
           Exits code \<Rightarrow> (s0, Some (Exits code))
         | Pending \<Rightarrow> (s0, Some Pending)
         | Returns st \<Rightarrow>
             let s1 = s0\<lparr>last_status := st\<rparr>
             in if ok st then (s1, Some (Returns (Inr ())))
                else if error_code st = UNAUTHENTICATED \<and> \<not> refreshed s then
                  (s1\<lparr>refreshed := True\<rparr>, None)
                else if n_attempts s < RECC_RETRY_LIMIT then
                  (case time_delay RECC_RETRY_DELAY (n_attempts s) of
                     None \<Rightarrow> (s1, Some (Returns (Inl Undefined)))
                   | Some delay \<Rightarrow>
                       (s1\<lparr>n_attempts := n_attempts s + 1,
                           trace := trace s1 @
                             [LogError (''Attempt '' @ to_string (n_attempts s + 1) @ ''/'' @
                                to_string (RECC_RETRY_LIMIT + 1) @ '' failed with gRPC error '' @
                                to_string (error_code st) @ '': '' @ error_message st @
                                ''. Retrying in '' @ to_string delay @ '' ms...''),
                              Sleep delay]\<rparr>, None))
                else (s1\<lparr>n_attempts := n_attempts s + 1\<rparr>, None))"

text \<open>The message of the \<open>std::runtime_error\<close> thrown after the loop.\<close>

definition retry_error_message :: "int \<Rightarrow> status \<Rightarrow> string" where
  "retry_error_message RECC_RETRY_LIMIT st =
     (let error_message = to_string (error_code st) @ '': '' @ error_message st
      in if RECC_RETRY_LIMIT > 0
         then ''Retry limit exceeded. Last gRPC error was '' @ error_message
         else error_message)"

lemma retry_body_decreases:
  assumes "retry_body L D rpc ctx s = (s', None)" and "n_attempts s' < L + 1"
  shows "2 * nat (L + 1 - n_attempts s') + (if refreshed s' then 0 else 1)
       < 2 * nat (L + 1 - n_attempts s) + (if refreshed s then 0 else (1::nat))"
  using assms
  by (auto simp: retry_body_def Let_def split: if_splits option.splits call.splits)

function retry_loop ::
  "int \<Rightarrow> int \<Rightarrow> (nat \<Rightarrow> status call) \<Rightarrow> grpc_context \<Rightarrow> retry_state \<Rightarrow>
   retry_state \<times> (error + unit) call"
  where
  "retry_loop RECC_RETRY_LIMIT RECC_RETRY_DELAY rpc ctx s =
     (case retry_body RECC_RETRY_LIMIT RECC_RETRY_DELAY rpc ctx s of
        (s', Some r) \<Rightarrow> (s', r)
      | (s', None) \<Rightarrow>
          if n_attempts s' < RECC_RETRY_LIMIT + 1
          then retry_loop RECC_RETRY_LIMIT RECC_RETRY_DELAY rpc ctx s'
          else (s', Returns (Inl (RuntimeError
                  (retry_error_message RECC_RETRY_LIMIT (last_status s'))))))"
  by pat_completeness auto
termination
  by (relation "measure (\<lambda>(L, D, rpc, ctx, s).
        2 * nat (L + 1 - n_attempts s) + (if refreshed s then 0 else 1))")
    (use retry_body_decreases in \<open>auto simp del: nat_diff_distrib'\<close>)

declare retry_loop.simps [simp del]

text \<open>
  \<open>grpc_retry\<close>: the loop from \<open>n_attempts = 0\<close>, \<open>refreshed = false\<close>. The result is the
  final state (of which the trace and the count of invocations are read) and the outcome:
  \<open>Returns (Inr ())\<close> for the return, \<open>Returns (Inl e)\<close> for the exception, and the end of the
  wrapped call when that does not return.
\<close>

definition grpc_retry ::
  "int \<Rightarrow> int \<Rightarrow> (nat \<Rightarrow> status call) \<Rightarrow> grpc_context \<Rightarrow>
   retry_state \<times> (error + unit) call" where
  "grpc_retry RECC_RETRY_LIMIT RECC_RETRY_DELAY rpc ctx =
     retry_loop RECC_RETRY_LIMIT RECC_RETRY_DELAY rpc ctx
       \<lparr>n_attempts = 0, refreshed = False, last_status = \<lparr>error_code = 0, error_message = []\<rparr>,
        invocations = 0, trace = []\<rparr>"

text \<open>
  What the retry policy is expected to show of attempt number \<open>n\<close> when the call fails: the
  invocation, followed by a sleep of \<open>RECC_RETRY_DELAY * 2^n\<close> milliseconds if another attempt
  is left. \<open>call_or_sleep\<close> selects these two kinds of event from a trace; \<open>delays_fit\<close> says
  that every such delay is in the range of \<open>int\<close>.
\<close>

definition expected_attempt :: "int \<Rightarrow> int \<Rightarrow> nat \<Rightarrow> event list" where
  "expected_attempt RECC_RETRY_LIMIT RECC_RETRY_DELAY n =
     (if int n < RECC_RETRY_LIMIT then [Invocation n, Sleep (RECC_RETRY_DELAY * 2 ^ n)]
      else [Invocation n])"

fun call_or_sleep :: "event \<Rightarrow> bool" where
  "call_or_sleep (Invocation k) = True"
| "call_or_sleep (Sleep d) = True"
| "call_or_sleep e = False"

definition delays_fit :: "int \<Rightarrow> int \<Rightarrow> bool" where
  "delays_fit RECC_RETRY_LIMIT RECC_RETRY_DELAY =
     list_all (\<lambda>n. time_delay RECC_RETRY_DELAY (int n) \<noteq> None) [0 ..< nat RECC_RETRY_LIMIT]"

section \<open>remoteexecutionclient.cpp: the execution client\<close>

subsection \<open>Messages\<close>

text \<open>
  The protocol buffer messages the client reads, with the fields the code uses. Several
  messages have a field \<open>name\<close>, \<open>digest\<close> or \<open>path\<close>; the record fields carry a prefix.
  A \<open>google.rpc.Status\<close> inside a message is a code and a message text, as a
  \<open>grpc::Status\<close> is, and is modelled by the same record.
\<close>

record digest =
  dg_hash :: string
  dg_size_bytes :: int

record file_node =
  fn_name :: string
  fn_digest :: digest
  fn_is_executable :: bool

record directory_node =
  dn_name :: string
  dn_digest :: digest

record directory =
  dir_files :: "file_node list"
  dir_directories :: "directory_node list"

record tree =
  tree_root :: directory
  tree_children :: "directory list"

record output_file =
  of_path :: string
  of_digest :: digest
  of_is_executable :: bool

record output_directory =
  od_path :: string
  od_tree_digest :: digest

record proto_action_result =
  exit_code :: int
  stdout_raw :: string
  stdout_digest :: digest
  stderr_raw :: string
  stderr_digest :: digest
  output_files :: "output_file list"
  output_directories :: "output_directory list"

record execute_response =
  er_result :: proto_action_result
  er_status :: status
  er_message :: string

text \<open>
  \<open>google.protobuf.Any\<close> and \<open>google.longrunning.Operation\<close>. The result of an operation is
  a \<open>oneof\<close>: not set, an error status, or a packed response. The accessors return the
  default message for a member that is not the one set.
\<close>

record any =
  type_url :: string
  any_value :: string

datatype operation_result = ResultNotSet | Error status | Response any

record operation =
  op_name :: string
  op_done :: bool
  op_result :: operation_result

definition has_error :: "operation \<Rightarrow> bool" where
  "has_error operation = (case op_result operation of Error st \<Rightarrow> True | _ \<Rightarrow> False)"

definition op_error :: "operation \<Rightarrow> status" where
  "op_error operation =
     (case op_result operation of Error st \<Rightarrow> st | _ \<Rightarrow> \<lparr>error_code = 0, error_message = []\<rparr>)"

definition op_response :: "operation \<Rightarrow> any" where
  "op_response operation =
     (case op_result operation of Response a \<Rightarrow> a | _ \<Rightarrow> \<lparr>type_url = [], any_value = []\<rparr>)"

text \<open>
  \<open>Any::Is<proto::ExecuteResponse>\<close> of the protobuf library: the type URL has a slash, and
  the text after its last slash is the full name of the message type.
  \<open>Any::UnpackTo\<close> is that check followed by \<open>ParseFromString\<close> on the value; the parser of
  the wire format is a parameter.
\<close>

definition Is_ExecuteResponse :: "any \<Rightarrow> bool" where
  "Is_ExecuteResponse a =
     (CHR ''/'' \<in> set (type_url a) \<and>
      rev (takeWhile (\<lambda>c. c \<noteq> CHR ''/'') (rev (type_url a))) =
        ''build.bazel.remote.execution.v2.ExecuteResponse'')"

definition UnpackTo :: "(string \<Rightarrow> execute_response option) \<Rightarrow> any \<Rightarrow> execute_response option" where
  "UnpackTo ParseFromString a =
     (if Is_ExecuteResponse a then ParseFromString (any_value a) else None)"

text \<open>
  Modelled from the spec: \<open>ensure_ok\<close> is declared in a header that is not among the
  sources. A status that is not OK is surfaced as an error, here an error that carries the
  code and the message of the status; an OK status passes.
\<close>

definition ensure_ok :: "status \<Rightarrow> error + unit" where
  "ensure_ok st = (if ok st then Inr () else Inl (GrpcError (error_code st) (error_message st)))"

subsection \<open>from_proto\<close>

text \<open>
  The client's own \<open>ActionResult\<close>: exit code, the two output blobs (inline bytes and
  digest), and the map from output file paths to digest and executable bit.
\<close>

record output_blob =
  ob_inline :: string
  ob_digest :: digest

record action_result =
  d_exitCode :: int
  d_stdOut :: output_blob
  d_stdErr :: output_blob
  d_outputFiles :: "string \<rightharpoonup> digest \<times> bool"

text \<open>
  \<open>add_from_directory\<close>: the files of the directory go into the map under the prefix, then
  each subdirectory is looked up by digest with \<open>digestMap.at\<close> (which throws
  \<open>std::out_of_range\<close> for a missing key) and added recursively. Nothing in the code bounds
  the recursion; the first argument bounds its depth, and \<open>Pending\<close> is the recursion that has
  not returned within it.
\<close>

primrec add_from_directory ::
  "nat \<Rightarrow> (string \<rightharpoonup> digest \<times> bool) \<Rightarrow> directory \<Rightarrow> string \<Rightarrow> (digest \<rightharpoonup> directory) \<Rightarrow>
   (error + (string \<rightharpoonup> digest \<times> bool)) call" where
  "add_from_directory 0 outputFiles directory prefix digestMap = Pending"
| "add_from_directory (Suc depth) outputFiles directory prefix digestMap =
     fold (\<lambda>node acc.
            case acc of
              Returns (Inr out) \<Rightarrow>
                (case digestMap (dn_digest node) of
                   None \<Rightarrow> Returns (Inl OutOfRange)
                 | Some subdirectory \<Rightarrow>
                     add_from_directory depth out subdirectory
                       (prefix @ dn_name node @ ''/'') digestMap)
            | other \<Rightarrow> other)
       (dir_directories directory)
       (Returns (Inr (fold (\<lambda>file out.
                        out(prefix @ fn_name file \<mapsto> (fn_digest file, fn_is_executable file)))
                   (dir_files directory) outputFiles)))"

text \<open>
  \<open>RemoteExecutionClient::from_proto\<close>. \<open>fetch_message<proto::Tree>\<close> (of the CAS client)
  and \<open>make_digest\<close> are not among the sources: parameters. A later entry for the same key
  overwrites an earlier one, in \<open>d_outputFiles\<close> and in \<open>digestMap\<close>.
\<close>

definition from_proto ::
  "nat \<Rightarrow> (digest \<Rightarrow> error + tree) \<Rightarrow> (directory \<Rightarrow> digest) \<Rightarrow> proto_action_result \<Rightarrow>
   (error + action_result) call" where
  "from_proto depth fetch_message make_digest proto =
     (let result = \<lparr>d_exitCode = exit_code proto,
                     d_stdOut = \<lparr>ob_inline = stdout_raw proto, ob_digest = stdout_digest proto\<rparr>,
                     d_stdErr = \<lparr>ob_inline = stderr_raw proto, ob_digest = stderr_digest proto\<rparr>,
                     d_outputFiles = Map.empty\<rparr>;
          files = fold (\<lambda>fileProto out.
                     out(of_path fileProto \<mapsto> (of_digest fileProto, of_is_executable fileProto)))
                   (output_files proto) Map.empty
      in case fold (\<lambda>outputDirectoryProto acc.
                  case acc of
                    Returns (Inr out) \<Rightarrow>
                      (case fetch_message (od_tree_digest outputDirectoryProto) of
                         Inl e \<Rightarrow> Returns (Inl e)
                       | Inr tree \<Rightarrow>
                           let digestMap = fold (\<lambda>child m. m(make_digest child \<mapsto> child))
                                             (tree_children tree) Map.empty
                           in add_from_directory depth out (tree_root tree)
                                (od_path outputDirectoryProto @ ''/'') digestMap)
                  | other \<Rightarrow> other)
             (output_directories proto) (Returns (Inr files)) of
           Returns (Inr out) \<Rightarrow> Returns (Inr (result\<lparr>d_outputFiles := out\<rparr>))
         | Returns (Inl e) \<Rightarrow> Returns (Inl e)
         | Exits code \<Rightarrow> Exits code
         | Pending \<Rightarrow> Pending)"

subsection \<open>get_actionresult\<close>

text \<open>
  \<open>get_actionresult\<close>, without its two log lines. The first \<open>if\<close> chain throws or falls
  through to the unpacking; an operation whose error member is set with an OK status passes
  \<open>ensure_ok\<close> and is unpacked like the others.
\<close>

definition get_actionresult ::
  "(string \<Rightarrow> execute_response option) \<Rightarrow> operation \<Rightarrow> error + proto_action_result" where
  "get_actionresult ParseFromString operation =
     (case (if \<not> op_done operation then
              Inl (LogicError ''Called get_actionresult on an unfinished Operation'')
            else if has_error operation then ensure_ok (op_error operation)
            else if \<not> Is_ExecuteResponse (op_response operation) then
              Inl (RuntimeError ''Server returned invalid Operation result'')
            else Inr ()) of
        Inl e \<Rightarrow> Inl e
      | Inr _ \<Rightarrow>
          (case UnpackTo ParseFromString (op_response operation) of
             None \<Rightarrow> Inl (RuntimeError ''Operation response unpacking failed'')
           | Some executeResponse \<Rightarrow>
               (case ensure_ok (er_status executeResponse) of
                  Inl e \<Rightarrow> Inl e
                | Inr _ \<Rightarrow> Inr (er_result executeResponse))))"

subsection \<open>Reading the stream, and cancellation\<close>

text \<open>
  \<open>read_operation_async\<close>, on the worker thread: every \<open>Read\<close> stores the next operation of
  the stream in \<open>*operation_ptr\<close>; the loop ends with the first one that is done, or with the
  stream. The result is what \<open>*operation_ptr\<close> holds then.
\<close>

fun read_operation_async :: "operation list \<Rightarrow> operation \<Rightarrow> operation" where
  "read_operation_async [] operation = operation"
| "read_operation_async (received # stream) operation =
     (if op_done received then received else read_operation_async stream received)"

text \<open>
  \<open>cancel_operation\<close>: the \<open>CancelOperation\<close> call on a new client context, and one log line
  for its status. The status the server returns is a parameter. The function returns in both
  cases.
\<close>

definition cancel_operation :: "(string \<Rightarrow> status) \<Rightarrow> grpc_context \<Rightarrow> string \<Rightarrow> event list" where
  "cancel_operation CancelOperation_status ctx operationName =
     [new_client_context ctx, CancelOperation operationName,
      (if \<not> ok (CancelOperation_status operationName)
       then LogError (''Failed to cancel job '' @ operationName @ '': '' @
              error_message (CancelOperation_status operationName))
       else Log (''Cancelled job '' @ operationName))]"

text \<open>
  \<open>read_operation\<close>, on the main thread. Each turn of its \<open>do\<close> loop waits on the future and
  then reads the SIGINT flag. What a turn observes is a \<open>poll\<close>: whether the future was ready,
  whether the flag was set, and the operation that \<open>*operation_ptr\<close> held. The polls are given
  as a list, in order; the worker thread and the signal decide them. A list that ends before
  a poll with the flag set or the future ready is a loop that has not ended: \<open>Pending\<close>.
\<close>

record poll =
  future_ready :: bool
  sigint_received :: bool
  seen_operation :: operation

fun read_operation :: "(string \<Rightarrow> status) \<Rightarrow> grpc_context \<Rightarrow> poll list \<Rightarrow> event list \<times> unit call" where
  "read_operation CancelOperation_status ctx [] = ([], Pending)"
| "read_operation CancelOperation_status ctx (p # polls) =
     (if sigint_received p then
        (LogWarning (''Cancelling job, operation name: '' @ op_name (seen_operation p)) #
         (if op_name (seen_operation p) \<noteq> []
          then cancel_operation CancelOperation_status ctx (op_name (seen_operation p))
          else []),
         Exits 130)
      else if future_ready p then ([], Returns ())
      else read_operation CancelOperation_status ctx polls)"

subsection \<open>execute_action and fetch_from_action_cache\<close>

text \<open>
  One run of the lambda that \<open>execute_action\<close> passes to \<open>grpc_retry\<close>: the polls of
  \<open>read_operation\<close>, the operations the stream delivers, and the status of \<open>Finish\<close>. The
  lambda returns that status once \<open>read_operation\<close> has returned.
\<close>

record attempt =
  at_polls :: "poll list"
  at_stream :: "operation list"
  at_finish :: status

definition execute_lambda :: "(string \<Rightarrow> status) \<Rightarrow> grpc_context \<Rightarrow> attempt \<Rightarrow> status call" where
  "execute_lambda CancelOperation_status ctx a =
     (case snd (read_operation CancelOperation_status ctx (at_polls a)) of
        Returns _ \<Rightarrow> Returns (at_finish a)
      | Exits code \<Rightarrow> Exits code
      | Pending \<Rightarrow> Pending)"

text \<open>
  \<open>execute_action\<close>. After \<open>grpc_retry\<close> has returned, \<open>*operation_ptr\<close> is the operation read
  in the last invocation of the lambda, starting from a new, empty \<open>Operation\<close>.
\<close>

definition execute_action ::
  "int \<Rightarrow> int \<Rightarrow> nat \<Rightarrow> (digest \<Rightarrow> error + tree) \<Rightarrow> (directory \<Rightarrow> digest) \<Rightarrow>
   (string \<Rightarrow> execute_response option) \<Rightarrow> (string \<Rightarrow> status) \<Rightarrow> grpc_context \<Rightarrow>
   (nat \<Rightarrow> attempt) \<Rightarrow> (error + action_result) call" where
  "execute_action RECC_RETRY_LIMIT RECC_RETRY_DELAY depth fetch_message make_digest
       ParseFromString CancelOperation_status ctx attempts =
     (case grpc_retry RECC_RETRY_LIMIT RECC_RETRY_DELAY
             (\<lambda>k. execute_lambda CancelOperation_status ctx (attempts k)) ctx of
        (s, Exits code) \<Rightarrow> Exits code
      | (s, Pending) \<Rightarrow> Pending
      | (s, Returns (Inl e)) \<Rightarrow> Returns (Inl e)
      | (s, Returns (Inr _)) \<Rightarrow>
          let operation = read_operation_async (at_stream (attempts (invocations s - 1)))
                            \<lparr>op_name = [], op_done = False, op_result = ResultNotSet\<rparr>
          in if \<not> op_done operation then
               Returns (Inl (RuntimeError ''Server closed stream before Operation finished''))
             else
               (case get_actionresult ParseFromString operation of
                  Inl e \<Rightarrow> Returns (Inl e)
                | Inr resultProto \<Rightarrow> from_proto depth fetch_message make_digest resultProto))"

text \<open>
  \<open>fetch_from_action_cache\<close>. The first argument pair is what \<open>GetActionResult\<close> gives: the
  status and the message it filled in. \<open>result\<close> is a pointer that may be null; the model
  says whether it is given and returns what is stored through it next to the \<open>bool\<close>.
\<close>

definition fetch_from_action_cache ::
  "nat \<Rightarrow> (digest \<Rightarrow> error + tree) \<Rightarrow> (directory \<Rightarrow> digest) \<Rightarrow> status \<times> proto_action_result \<Rightarrow>
   bool \<Rightarrow> (error + bool \<times> action_result option) call" where
  "fetch_from_action_cache depth fetch_message make_digest GetActionResult result_given =
     (case GetActionResult of (status, actionResult) \<Rightarrow>
        if \<not> ok status then
          (if error_code status = NOT_FOUND then Returns (Inr (False, None))
           else Returns (Inl (RuntimeError (''Action cache returned error '' @ error_message status))))
        else if result_given then
          (case from_proto depth fetch_message make_digest actionResult of
             Returns (Inr result) \<Rightarrow> Returns (Inr (True, Some result))
           | Returns (Inl e) \<Rightarrow> Returns (Inl e)
           | Exits code \<Rightarrow> Exits code
           | Pending \<Rightarrow> Pending)
        else Returns (Inr (True, None)))"

section \<open>parse_environment: configuration from the environment\<close>













section \<open>Properties of the path operations\<close>

lemma normalize_loop_Nil: "normalize_loop [] segments = segments"
  by (simp add: normalize_loop.simps)

lemma normalize_loop_unfold:
  "path \<noteq> [] \<Longrightarrow>
   normalize_loop path segments =
     (case dropWhile (\<lambda>c. c \<noteq> CHR ''/'') path of
        [] \<Rightarrow> update_segments (takeWhile (\<lambda>c. c \<noteq> CHR ''/'') path) segments
      | _ # path' \<Rightarrow>
          normalize_loop path' (update_segments (takeWhile (\<lambda>c. c \<noteq> CHR ''/'') path) segments))"
  by (subst normalize_loop.simps) (simp add: Let_def)

text \<open>
  The invariant of the segment vector: no segment is empty, is \<open>.\<close> or contains a slash, and
  every \<open>..\<close> stands before all other segments.
\<close>

definition clean_segments :: "string list \<Rightarrow> bool" where
  "clean_segments segments =
     (list_all (\<lambda>s. s \<noteq> [] \<and> s \<noteq> ''.'' \<and> CHR ''/'' \<notin> set s) segments \<and>
      ''..'' \<notin> set (dropWhile (\<lambda>s. s = ''..'') segments))"

lemma dropWhile_all: "dropWhile P xs = [] \<longleftrightarrow> list_all P xs"
  by (induction xs) auto

lemma clean_update:
  assumes "clean_segments segments" and "CHR ''/'' \<notin> set segment"
  shows "clean_segments (update_segments segment segments)"
proof (cases "segment = ''..'' \<and> segments \<noteq> [] \<and> last segments \<noteq> ''..''")
  case True
  then obtain xs x where xs: "segments = xs @ [x]" and x: "x \<noteq> ''..''"
    by (metis append_butlast_last_id)
  have "dropWhile (\<lambda>s. s = ''..'') (xs @ [x]) = dropWhile (\<lambda>s. s = ''..'') xs @ [x]"
    using x by (induction xs) auto
  with assms(1) xs have "''..'' \<notin> set (dropWhile (\<lambda>s. s = ''..'') xs)"
    by (simp add: clean_segments_def)
  with assms(1) xs True show ?thesis
    by (simp add: clean_segments_def update_segments_def)
next
  case False
  show ?thesis
  proof (cases "segment \<noteq> ''.'' \<and> segment \<noteq> []")
    case push: True
    show ?thesis
    proof (cases "segment = ''..''")
      case dd: True
      with False have "segments = [] \<or> last segments = ''..''"
        by blast
      then have all: "list_all (\<lambda>s. s = ''..'') segments"
      proof
        assume "segments = []" then show ?thesis by simp
      next
        assume l: "last segments = ''..''"
        show ?thesis
        proof (rule ccontr)
          assume "\<not> list_all (\<lambda>s. s = ''..'') segments"
          then have ne: "dropWhile (\<lambda>s. s = ''..'') segments \<noteq> []"
            by (simp only: dropWhile_all not_False_eq_True)
          then have "last (dropWhile (\<lambda>s. s = ''..'') segments) = last segments"
            by (metis last_appendR takeWhile_dropWhile_id)
          with l ne have "''..'' \<in> set (dropWhile (\<lambda>s. s = ''..'') segments)"
            by (metis last_in_set)
          with assms(1) show False
            by (simp add: clean_segments_def)
        qed
      qed
      then have "list_all (\<lambda>s. s = ''..'') (segments @ [segment])"
        using dd by simp
      then have "dropWhile (\<lambda>s. s = ''..'') (segments @ [segment]) = []"
        by (simp only: dropWhile_all)
      moreover have "update_segments segment segments = segments @ [segment]"
        using False push by (auto simp: update_segments_def)
      ultimately show ?thesis
        using assms dd by (simp add: clean_segments_def)
    next
      case nd: False
      have "set (dropWhile (\<lambda>s. s = ''..'') (segments @ [segment]))
              \<subseteq> set (dropWhile (\<lambda>s. s = ''..'') segments) \<union> {segment}"
        by (induction segments) auto
      moreover have "update_segments segment segments = segments @ [segment]"
        using False push by (auto simp: update_segments_def)
      ultimately show ?thesis
        using assms nd push by (auto simp: clean_segments_def)
    qed
  next
    case skip: False
    with assms False show ?thesis
      by (auto simp: update_segments_def)
  qed
qed

lemma clean_normalize_loop:
  "clean_segments segments \<Longrightarrow> clean_segments (normalize_loop path segments)"
proof (induction path arbitrary: segments rule: length_induct)
  case (1 path)
  show ?case
  proof (cases "path = []")
    case True
    with 1 show ?thesis by (simp add: normalize_loop_Nil)
  next
    case False
    have seg: "CHR ''/'' \<notin> set (takeWhile (\<lambda>c. c \<noteq> CHR ''/'') path)"
      by (auto dest: set_takeWhileD)
    have c: "clean_segments (update_segments (takeWhile (\<lambda>c. c \<noteq> CHR ''/'') path) segments)"
      using "1.prems" seg by (rule clean_update)
    show ?thesis
    proof (cases "dropWhile (\<lambda>c. c \<noteq> CHR ''/'') path")
      case Nil
      show ?thesis unfolding normalize_loop_unfold [OF False] Nil using c by simp
    next
      case (Cons y path')
      then have "length path' < length path"
        by (rule dropWhile_tail_shorter)
      with 1 c have "clean_segments (normalize_loop path'
          (update_segments (takeWhile (\<lambda>c. c \<noteq> CHR ''/'') path) segments))"
        by blast
      then show ?thesis unfolding normalize_loop_unfold [OF False] Cons by simp
    qed
  qed
qed


lemma join_segments_Nil: "join_segments [] = []"
  by (simp add: join_segments_def)

lemma join_segments_snoc:
  "join_segments (xs @ [s]) = concat (map (\<lambda>segment. segment @ ''/'') xs) @ s"
  by (simp add: join_segments_def butlast_append)

lemma join_segments_Cons:
  "xs \<noteq> [] \<Longrightarrow> join_segments (s # xs) = s @ ''/'' @ join_segments xs"
  by (simp add: join_segments_def butlast_append)

lemma join_segments_single: "join_segments [s] = s"
  by (simp add: join_segments_def)

lemma clean_segments_Nil: "clean_segments []"
  by (simp add: clean_segments_def)

lemma clean_segments_member:
  "clean_segments segments \<Longrightarrow> s \<in> set segments \<Longrightarrow> s \<noteq> [] \<and> s \<noteq> ''.'' \<and> CHR ''/'' \<notin> set s"
  by (simp add: clean_segments_def list_all_iff)

lemma join_segments_first:
  assumes "clean_segments segments"
  shows "c_at (join_segments segments) 0 \<noteq> CHR ''/''"
proof (cases segments)
  case Nil
  then show ?thesis by (simp add: join_segments_Nil c_at_def)
next
  case (Cons s xs)
  with assms have s: "s \<noteq> []" "CHR ''/'' \<notin> set s"
    using clean_segments_member [of segments s] by simp_all
  then have "hd s \<noteq> CHR ''/''"
    by (metis hd_in_set)
  moreover have "join_segments (s # xs) = s @ drop (length s) (join_segments (s # xs))"
    by (cases "xs = []") (simp_all add: join_segments_single join_segments_Cons)
  then have "c_at (join_segments (s # xs)) 0 = hd s"
    using s(1) by (metis (no_types, lifting) c_at_def hd_append2 hd_conv_nth length_greater_0_conv
        append_is_Nil_conv)
  ultimately show ?thesis using Cons by simp
qed

lemma join_segments_last:
  assumes "clean_segments segments" and "segments \<noteq> []"
  shows "join_segments segments \<noteq> [] \<and> last (join_segments segments) \<noteq> CHR ''/''"
proof -
  from assms(2) obtain xs s where xs: "segments = xs @ [s]"
    by (metis append_butlast_last_id)
  with assms(1) have s: "s \<noteq> []" "CHR ''/'' \<notin> set s"
    using clean_segments_member [of segments s] by simp_all
  then have "last s \<noteq> CHR ''/''"
    by (metis last_in_set)
  with s xs show ?thesis
    by (simp add: join_segments_snoc)
qed

lemma clean_normalize: "clean_segments (normalize_loop p [])"
  by (rule clean_normalize_loop [OF clean_segments_Nil])





text \<open>
  Claim C10. With an empty \<open>RECC_PROJECT_ROOT\<close>, \<open>make_path_relative\<close> returns every path
  unchanged, for every working directory (null included), and never throws: the empty prefix
  matches no path, so no absolute path is rewritten to a relative one.
\<close>

theorem make_path_relative_empty_root:
  "make_path_relative [] path workingDirectory = Inr path"
  by (cases workingDirectory) (simp_all add: make_path_relative_def has_path_prefix_def)

theorem make_path_relative_empty_root_witness:
  "make_path_relative [] ''/proj/src/x.c'' (Some ''/proj/src'') = Inr ''/proj/src/x.c'' \<and>
   make_path_relative ''/proj'' ''/proj/src/x.c'' (Some ''/proj/src'') = Inr ''x.c''"
proof -
  have "make_path_relative ''/proj'' ''/proj/src/x.c'' (Some ''/proj/src'') = Inr ''x.c''"
    by (simp add: make_path_relative_def has_path_prefix_def c_at_def relative_scan.simps)
  then show ?thesis
    using make_path_relative_empty_root [of "''/proj/src/x.c''" "Some ''/proj/src''"] by simp
qed

lemma takeWhile_slash_append:
  "CHR ''/'' \<notin> set a \<Longrightarrow> takeWhile (\<lambda>c. c \<noteq> CHR ''/'') (a @ CHR ''/'' # b) = a"
  by (induction a) auto

lemma dropWhile_slash_append:
  "CHR ''/'' \<notin> set a \<Longrightarrow> dropWhile (\<lambda>c. c \<noteq> CHR ''/'') (a @ CHR ''/'' # b) = CHR ''/'' # b"
  by (induction a) auto

lemma normalize_loop_append:
  "normalize_loop (a @ CHR ''/'' # b) segments = normalize_loop b (normalize_loop a segments)"
proof (induction a arbitrary: segments rule: length_induct)
  case (1 a)
  let ?P = "\<lambda>c. c \<noteq> CHR ''/''"
  show ?case
  proof (cases "a = []")
    case True
    then show ?thesis
      by (simp add: normalize_loop_Nil normalize_loop_unfold update_segments_def)
  next
    case False
    show ?thesis
    proof (cases "dropWhile ?P a")
      case Nil
      then have noslash: "CHR ''/'' \<notin> set a"
        by auto
      then have tw: "takeWhile ?P a = a"
        by (intro takeWhile_eq_all_conv [THEN iffD2]) auto
      have "normalize_loop a segments = update_segments a segments"
        unfolding normalize_loop_unfold [OF False] Nil tw by simp
      moreover have "normalize_loop (a @ CHR ''/'' # b) segments =
          normalize_loop b (update_segments a segments)"
        by (subst normalize_loop_unfold)
          (simp_all add: takeWhile_slash_append [OF noslash] dropWhile_slash_append [OF noslash])
      ultimately show ?thesis by simp
    next
      case (Cons y a')
      have y: "y = CHR ''/''"
        using hd_dropWhile [of ?P a] Cons by simp
      have a: "a = takeWhile ?P a @ CHR ''/'' # a'"
        using takeWhile_dropWhile_id [of ?P a] Cons y by simp
      have len: "length a' < length a"
        using Cons by (rule dropWhile_tail_shorter)
      have ns: "CHR ''/'' \<notin> set (takeWhile ?P a)"
        by (auto dest: set_takeWhileD)
      have tw: "takeWhile ?P (a @ CHR ''/'' # b) = takeWhile ?P a"
        by (subst a, simp only: append_assoc append_Cons)
          (rule takeWhile_slash_append [OF ns])
      have dw: "dropWhile ?P (a @ CHR ''/'' # b) = CHR ''/'' # (a' @ CHR ''/'' # b)"
        by (subst a, simp only: append_assoc append_Cons)
          (rule dropWhile_slash_append [OF ns])
      have "normalize_loop (a @ CHR ''/'' # b) segments =
          normalize_loop (a' @ CHR ''/'' # b) (update_segments (takeWhile ?P a) segments)"
        by (subst normalize_loop_unfold) (simp_all add: tw dw)
      also have "\<dots> = normalize_loop b (normalize_loop a' (update_segments (takeWhile ?P a) segments))"
        using 1 len by blast
      also have "normalize_loop a' (update_segments (takeWhile ?P a) segments) =
          normalize_loop a segments"
        unfolding normalize_loop_unfold [OF False, of segments] Cons by simp
      finally show ?thesis .
    qed
  qed
qed

lemma update_segments_keeps_dotdot:
  "''..'' \<in> set segments \<Longrightarrow> ''..'' \<in> set (update_segments segment segments)"
proof -
  assume d: "''..'' \<in> set segments"
  have "last segments \<noteq> ''..'' \<Longrightarrow> ''..'' \<in> set (butlast segments)"
    using d by (cases segments rule: rev_cases) auto
  with d show ?thesis
    by (auto simp: update_segments_def)
qed

lemma normalize_loop_keeps_dotdot:
  "''..'' \<in> set segments \<Longrightarrow> ''..'' \<in> set (normalize_loop path segments)"
proof (induction path arbitrary: segments rule: length_induct)
  case (1 path)
  show ?case
  proof (cases "path = []")
    case True
    with 1 show ?thesis by (simp add: normalize_loop_Nil)
  next
    case False
    have u: "''..'' \<in> set (update_segments (takeWhile (\<lambda>c. c \<noteq> CHR ''/'') path) segments)"
      using "1.prems" by (rule update_segments_keeps_dotdot)
    show ?thesis
    proof (cases "dropWhile (\<lambda>c. c \<noteq> CHR ''/'') path")
      case Nil
      show ?thesis unfolding normalize_loop_unfold [OF False] Nil using u by simp
    next
      case (Cons y path')
      then have "length path' < length path"
        by (rule dropWhile_tail_shorter)
      with 1 u have "''..'' \<in> set (normalize_loop path'
          (update_segments (takeWhile (\<lambda>c. c \<noteq> CHR ''/'') path) segments))"
        by blast
      then show ?thesis unfolding normalize_loop_unfold [OF False] Cons by simp
    qed
  qed
qed

lemma update_segments_below:
  assumes "''..'' \<notin> set (update_segments segment T)"
  shows "update_segments segment (S @ T) = S @ update_segments segment T"
proof (cases "segment = ''..''")
  case True
  have "T \<noteq> [] \<and> last T \<noteq> ''..''"
  proof (rule ccontr)
    assume "\<not> (T \<noteq> [] \<and> last T \<noteq> ''..'')"
    then have "update_segments segment T = T @ [''..'']"
      using True by (auto simp: update_segments_def)
    with assms show False by simp
  qed
  with True show ?thesis
    by (simp add: update_segments_def butlast_append)
next
  case False
  then show ?thesis
    by (simp add: update_segments_def)
qed

lemma normalize_loop_below:
  "''..'' \<notin> set (normalize_loop path T) \<Longrightarrow>
   normalize_loop path (S @ T) = S @ normalize_loop path T"
proof (induction path arbitrary: T rule: length_induct)
  case (1 path)
  let ?s = "takeWhile (\<lambda>c. c \<noteq> CHR ''/'') path"
  show ?case
  proof (cases "path = []")
    case True
    then show ?thesis by (simp add: normalize_loop_Nil)
  next
    case False
    show ?thesis
    proof (cases "dropWhile (\<lambda>c. c \<noteq> CHR ''/'') path")
      case Nil
      have "normalize_loop path T = update_segments ?s T"
        unfolding normalize_loop_unfold [OF False] Nil by simp
      with "1.prems" have "update_segments ?s (S @ T) = S @ update_segments ?s T"
        by (simp add: update_segments_below)
      then show ?thesis
        unfolding normalize_loop_unfold [OF False] Nil by simp
    next
      case (Cons y path')
      then have len: "length path' < length path"
        by (rule dropWhile_tail_shorter)
      have eq: "normalize_loop path T = normalize_loop path' (update_segments ?s T)"
        unfolding normalize_loop_unfold [OF False, of T] Cons by simp
      with "1.prems" have nd: "''..'' \<notin> set (normalize_loop path' (update_segments ?s T))"
        by simp
      then have "''..'' \<notin> set (update_segments ?s T)"
        using normalize_loop_keeps_dotdot by blast
      then have u: "update_segments ?s (S @ T) = S @ update_segments ?s T"
        by (rule update_segments_below)
      have "normalize_loop path' (S @ update_segments ?s T) =
          S @ normalize_loop path' (update_segments ?s T)"
        using 1 len nd by blast
      then show ?thesis
        unfolding normalize_loop_unfold [OF False] Cons by (simp add: u)
    qed
  qed
qed

lemma concat_join_segments:
  "S \<noteq> [] \<Longrightarrow> concat (map (\<lambda>segment. segment @ ''/'') S) = join_segments S @ ''/''"
  by (cases S rule: rev_cases) (simp_all add: join_segments_snoc)

lemma join_segments_append:
  "S \<noteq> [] \<Longrightarrow> Q \<noteq> [] \<Longrightarrow> join_segments (S @ Q) = join_segments S @ ''/'' @ join_segments Q"
  by (cases Q rule: rev_cases)
    (simp_all add: join_segments_snoc concat_join_segments flip: append_assoc)

lemma relative_scan_inside:
  assumes nul: "CHR 0x00 \<notin> set cwd" and last: "last cwd \<noteq> CHR ''/''" and rest: "rest \<noteq> []"
  shows "i < length cwd \<Longrightarrow> relative_scan (cwd @ CHR ''/'' # rest) cwd i l = Inl rest"
proof (induction "length cwd - i" arbitrary: i l)
  case 0
  then show ?case by simp
next
  case (Suc n)
  let ?path = "cwd @ CHR ''/'' # rest"
  have pi: "c_at ?path i = cwd ! i" and wi: "c_at cwd i = cwd ! i"
    using Suc.prems by (simp_all add: c_at_def nth_append)
  show ?case
  proof (cases "i + 1 < length cwd")
    case True
    then have "cwd ! (i + 1) \<in> set cwd"
      by (rule nth_mem)
    with nul have "cwd ! (i + 1) \<noteq> CHR 0x00"
      by metis
    with True have w1: "c_at cwd (i + 1) \<noteq> CHR 0x00"
      by (simp add: c_at_def)
    have n: "n = length cwd - (i + 1)"
      using Suc.hyps(2) by simp
    have ih: "relative_scan ?path cwd (i + 1) l' = Inl rest" for l'
      using Suc.hyps(1) [OF n True] .
    show ?thesis
      by (subst relative_scan.simps) (use Suc.prems pi wi w1 ih in simp)
  next
    case False
    with Suc.prems have i: "i + 1 = length cwd"
      by simp
    then have w1: "c_at cwd (i + 1) = CHR 0x00"
      by (simp add: c_at_def)
    from i have "cwd \<noteq> []" by auto
    with i have "cwd ! i = last cwd"
      by (metis add_diff_cancel_right' last_conv_nth)
    with last pi have p0: "c_at ?path i \<noteq> CHR ''/''"
      by simp
    have p1: "c_at ?path (i + 1) = CHR ''/''"
      using i by (simp add: c_at_def nth_append)
    have "0 < length rest"
      using rest by simp
    then have len: "length ?path \<noteq> i + 1" "length ?path \<noteq> i + 2"
      using i by simp_all
    have d: "drop (i + 2) ?path = rest"
      using i by simp
    show ?thesis
      by (subst relative_scan.simps) (use Suc.prems pi wi w1 p0 p1 len d in simp)
  qed
qed

lemma relative_scan_root:
  assumes "rest \<noteq> []" and "hd rest \<noteq> CHR ''/''"
  shows "relative_scan (CHR ''/'' # rest) ''/'' 0 0 = Inl rest"
proof -
  from assms obtain c cs where "rest = c # cs" and "c \<noteq> CHR ''/''"
    by (cases rest) auto
  then show ?thesis
    by (subst relative_scan.simps) (simp add: c_at_def)
qed

lemma has_path_prefix_extend:
  assumes "has_path_prefix p root" and "last p = CHR ''/'' \<or> hd r = CHR ''/''" and "r \<noteq> []"
  shows "has_path_prefix (p @ r) root"
proof -
  define root' where "root' = (if last root \<noteq> CHR ''/'' then root @ ''/'' else root)"
  have unfold: "has_path_prefix x root = (root \<noteq> [] \<and> (x = root \<or> take (length root') x = root'))" for x
    unfolding has_path_prefix_def root'_def Let_def by simp
  from assms(1) have ne: "root \<noteq> []" and "p = root \<or> take (length root') p = root'"
    by (simp_all add: unfold)
  from this(2) have "take (length root') (p @ r) = root'"
  proof
    assume eq: "p = root"
    from assms(3) obtain c cs where r: "r = c # cs"
      by (cases r) auto
    show ?thesis
    proof (cases "last root = CHR ''/''")
      case True
      with eq show ?thesis by (simp add: root'_def)
    next
      case False
      with eq assms(2) r have "c = CHR ''/''" by simp
      with eq r False show ?thesis by (simp add: root'_def)
    qed
  next
    assume t: "take (length root') p = root'"
    have "length (take (length root') p) \<le> length p"
      by simp
    with t have "length root' \<le> length p"
      by simp
    with t show ?thesis by simp
  qed
  with ne show ?thesis
    by (simp add: unfold)
qed

text \<open>
  Claim C6, as amended. Let \<open>cwd\<close> be an absolute path in normal form (a C string: no NUL
  byte) that has the project root as a prefix, and let \<open>p\<close> be a relative path that stays
  strictly inside \<open>cwd\<close>: its normalization is not empty and has no \<open>..\<close> segment. Then
  \<open>make_path_relative (make_path_absolute p cwd) cwd\<close> is \<open>normalize_path p\<close> when \<open>p\<close> does
  not end with a slash, and \<open>normalize_path p\<close> followed by a slash when it does:
  \<open>make_path_absolute\<close> keeps a trailing slash, which \<open>normalize_path\<close> drops.
\<close>

theorem make_relative_make_absolute:
  assumes norm: "normalize_path cwd = cwd" and abs: "c_at cwd 0 = CHR ''/''"
    and nul: "CHR 0x00 \<notin> set cwd" and root: "has_path_prefix cwd root"
    and rel: "c_at p 0 \<noteq> CHR ''/''" and ne: "normalize_loop p [] \<noteq> []"
    and inside: "''..'' \<notin> set (normalize_loop p [])"
  shows "make_path_relative root (make_path_absolute p cwd) (Some cwd) =
         Inr (if last p = CHR ''/'' then normalize_path p @ ''/'' else normalize_path p)"
proof -
  define S where "S = normalize_loop cwd []"
  define Q where "Q = normalize_loop p []"
  define q where "q = normalize_path p"
  define rest where "rest = (if last p = CHR ''/'' then q @ ''/'' else q)"
  have cS: "clean_segments S" and cQ: "clean_segments Q"
    unfolding S_def Q_def by (rule clean_normalize)+
  have q: "q = join_segments Q"
    using rel by (simp add: q_def Q_def normalize_path_def)
  have Qne: "Q \<noteq> []"
    using ne by (simp add: Q_def)
  have q_last: "q \<noteq> []" "last q \<noteq> CHR ''/''"
    using join_segments_last [OF cQ Qne] by (simp_all add: q)
  have q_first: "hd q \<noteq> CHR ''/''"
    using join_segments_first [OF cQ] q_last(1) by (simp add: q c_at_def hd_conv_nth)
  have rest_ne: "rest \<noteq> []" and rest_hd: "hd rest \<noteq> CHR ''/''"
    using q_last(1) q_first by (simp_all add: rest_def)
  have p_ne: "p \<noteq> []"
    using ne by (auto simp: normalize_loop_Nil)
  have p_hd: "hd p \<noteq> CHR ''/''"
    using rel p_ne by (simp add: c_at_def hd_conv_nth)
  have cwd_ne: "cwd \<noteq> []"
    using abs by (auto simp: c_at_def)
  have cwd_eq: "cwd = ''/'' @ join_segments S"
    using norm abs by (simp add: normalize_path_def S_def)
  have segs: "normalize_loop (cwd @ ''/'' @ p) [] = S @ Q"
  proof -
    have "normalize_loop (cwd @ CHR ''/'' # p) [] = normalize_loop p (S @ [])"
      by (simp add: normalize_loop_append S_def)
    also have "\<dots> = S @ normalize_loop p []"
      using inside by (rule normalize_loop_below)
    finally show ?thesis by (simp add: Q_def)
  qed
  have full0: "c_at (cwd @ ''/'' @ p) 0 = CHR ''/''"
    using abs cwd_ne by (simp add: c_at_def nth_append)
  have N: "normalize_path (cwd @ ''/'' @ p) = ''/'' @ join_segments (S @ Q)"
    using full0 segs by (simp add: normalize_path_def)
  have cwdS: "CHR ''/'' # join_segments S = cwd"
    using cwd_eq by simp
  have N1: "normalize_path (cwd @ ''/'' @ p) = CHR ''/'' # q" if "S = []"
    using N that q by simp
  have N2: "normalize_path (cwd @ ''/'' @ p) = cwd @ CHR ''/'' # q" if "S \<noteq> []"
  proof -
    have "normalize_path (cwd @ ''/'' @ p) = (CHR ''/'' # join_segments S) @ CHR ''/'' # q"
      using N Qne that by (simp add: join_segments_append q)
    then show ?thesis by (simp only: cwdS)
  qed
  have N_last: "last (normalize_path (cwd @ ''/'' @ p)) \<noteq> CHR ''/''"
  proof (cases "S = []")
    case True
    with N q q_last show ?thesis by simp
  next
    case False
    with N q q_last Qne show ?thesis by (simp add: join_segments_append)
  qed
  have N_ne: "normalize_path (cwd @ ''/'' @ p) \<noteq> []"
    using N by simp
  have N_end: "c_at (normalize_path (cwd @ ''/'' @ p)) (length (normalize_path (cwd @ ''/'' @ p)) - 1)
      \<noteq> CHR ''/''"
    using N_last N_ne by (simp add: c_at_def last_conv_nth)
  have absolute: "make_path_absolute p cwd =
      (if last p = CHR ''/'' then normalize_path (cwd @ ''/'' @ p) @ ''/''
       else normalize_path (cwd @ ''/'' @ p))"
    using p_ne p_hd N_end by (simp add: make_path_absolute_def Let_def)
  have scan: "relative_scan (make_path_absolute p cwd) cwd 0 0 = Inl rest"
    and pre: "has_path_prefix (make_path_absolute p cwd) root"
    and first: "c_at (make_path_absolute p cwd) 0 = CHR ''/''"
    and len: "make_path_absolute p cwd \<noteq> []"
  proof -
    show "make_path_absolute p cwd \<noteq> []"
      using N_ne by (simp add: absolute)
    show "c_at (make_path_absolute p cwd) 0 = CHR ''/''"
      using N by (simp add: absolute c_at_def)
    show "relative_scan (make_path_absolute p cwd) cwd 0 0 = Inl rest"
    proof (cases "S = []")
      case True
      then have c: "cwd = ''/''"
        using cwd_eq by (simp add: join_segments_Nil)
      have "make_path_absolute p cwd = CHR ''/'' # rest"
        using N1 [OF True] by (simp add: absolute rest_def)
      then show ?thesis
        using relative_scan_root [OF rest_ne rest_hd] c by simp
    next
      case False
      have "make_path_absolute p cwd = cwd @ CHR ''/'' # rest"
        using N2 [OF False] by (simp add: absolute rest_def)
      moreover have "last cwd \<noteq> CHR ''/''"
        using join_segments_last [OF cS False] cwd_eq by (metis last_appendR)
      moreover have "0 < length cwd"
        using cwd_ne by simp
      ultimately show ?thesis
        using relative_scan_inside [OF nul _ rest_ne, of 0 0] by simp
    qed
    show "has_path_prefix (make_path_absolute p cwd) root"
    proof (cases "S = []")
      case True
      then have c: "cwd = ''/''"
        using cwd_eq by (simp add: join_segments_Nil)
      have "make_path_absolute p cwd = CHR ''/'' # rest"
        using N1 [OF True] by (simp add: absolute rest_def)
      then have "make_path_absolute p cwd = cwd @ rest"
        by (simp add: c)
      moreover have "has_path_prefix (cwd @ rest) root"
        using root _ rest_ne by (rule has_path_prefix_extend) (simp add: c)
      ultimately show ?thesis by simp
    next
      case False
      have "make_path_absolute p cwd = cwd @ (CHR ''/'' # rest)"
        using N2 [OF False] by (simp add: absolute rest_def)
      moreover have "has_path_prefix (cwd @ (CHR ''/'' # rest)) root"
        using root by (rule has_path_prefix_extend) simp_all
      ultimately show ?thesis by simp
    qed
  qed
  have "make_path_relative root (make_path_absolute p cwd) (Some cwd) = Inr rest"
    using abs scan pre first len by (simp add: make_path_relative_def)
  then show ?thesis
    by (simp add: rest_def q_def)
qed

theorem make_relative_make_absolute_witness:
  "normalize_path ''/proj/src'' = ''/proj/src'' \<and> has_path_prefix ''/proj/src'' ''/proj'' \<and>
   normalize_loop ''sub/../x.c'' [] = [''x.c''] \<and>
   make_path_relative ''/proj'' (make_path_absolute ''sub/../x.c'' ''/proj/src'') (Some ''/proj/src'')
     = Inr ''x.c''"
proof -
  have 1: "normalize_path ''/proj/src'' = ''/proj/src''"
    by (simp add: normalize_path_def join_segments_def c_at_def normalize_loop.simps
        update_segments_def)
  have 2: "c_at ''/proj/src'' 0 = CHR ''/''" and 3: "CHR 0x00 \<notin> set ''/proj/src''"
    by (simp_all add: c_at_def)
  have 4: "has_path_prefix ''/proj/src'' ''/proj''"
    by (simp add: has_path_prefix_def)
  have 5: "c_at ''sub/../x.c'' 0 \<noteq> CHR ''/''"
    by (simp add: c_at_def)
  have 6: "normalize_loop ''sub/../x.c'' [] = [''x.c'']"
    by (simp add: normalize_loop.simps update_segments_def)
  have 7: "normalize_loop ''sub/../x.c'' [] \<noteq> []" "''..'' \<notin> set (normalize_loop ''sub/../x.c'' [])"
    by (simp_all add: 6)
  have 8: "normalize_path ''sub/../x.c'' = ''x.c''"
    by (simp add: normalize_path_def 6 join_segments_def c_at_def)
  show ?thesis
    using make_relative_make_absolute [OF 1 2 3 4 5 7] 1 4 6 8 by simp
qed

text \<open>
  Claim C6 as stated fails for a path with a trailing slash: \<open>a/\<close> lies inside
  \<open>/proj/src\<close>, which lies under the root \<open>/proj\<close>; the round trip gives \<open>a/\<close>, and
  \<open>normalize_path\<close> gives \<open>a\<close>. The other conditions of the amended claim are needed as
  well: for the path \<open>.\<close> (the working directory itself) the round trip gives \<open>.\<close> and
  \<open>normalize_path\<close> the empty string, and for the working directory \<open>/proj/./src\<close>, which
  is not in normal form, the round trip of \<open>x.c\<close> gives \<open>../../src/x.c\<close>.
\<close>

theorem make_relative_make_absolute_counterexample:
  "has_path_prefix ''/proj/src'' ''/proj'' \<and>
   make_path_absolute ''a/'' ''/proj/src'' = ''/proj/src/a/'' \<and>
   make_path_relative ''/proj'' (make_path_absolute ''a/'' ''/proj/src'') (Some ''/proj/src'')
     = Inr ''a/'' \<and>
   normalize_path ''a/'' = ''a'' \<and>
   make_path_relative ''/proj'' (make_path_absolute ''.'' ''/proj/src'') (Some ''/proj/src'')
     = Inr ''.'' \<and>
   normalize_path ''.'' = [] \<and>
   make_path_relative ''/proj'' (make_path_absolute ''x.c'' ''/proj/./src'') (Some ''/proj/./src'')
     = Inr ''../../src/x.c'' \<and>
   normalize_path ''x.c'' = ''x.c''"
proof -
  have absolute: "make_path_absolute ''a/'' ''/proj/src'' = ''/proj/src/a/''"
    "make_path_absolute ''.'' ''/proj/src'' = ''/proj/src''"
    "make_path_absolute ''x.c'' ''/proj/./src'' = ''/proj/src/x.c''"
    by (simp_all add: make_path_absolute_def normalize_path_def join_segments_def c_at_def
        normalize_loop.simps update_segments_def)
  have normal: "normalize_path ''a/'' = ''a''" "normalize_path ''.'' = []"
    "normalize_path ''x.c'' = ''x.c''"
    by (simp_all add: normalize_path_def join_segments_def c_at_def normalize_loop.simps
        update_segments_def)
  have scan: "relative_scan ''/proj/src/a/'' ''/proj/src'' 0 0 = Inl ''a/''"
    "relative_scan ''/proj/src'' ''/proj/src'' 0 0 = Inl ''.''"
    "relative_scan ''/proj/src/x.c'' ''/proj/./src'' 0 0 = Inr (6, 5)"
    by (simp_all add: c_at_def relative_scan.simps)
  have dots: "count_dotdots ''/proj/./src'' 6 1 = 2"
    by (simp add: c_at_def count_dotdots.simps)
  have "replicate 5 CHR ''.'' = ''.....''"
    by (simp add: eval_nat_numeral)
  then have slashes: "put_slashes 2 (replicate 5 CHR ''.'' @ ''/src/x.c'') = ''../../src/x.c''"
    by (simp add: put_slashes_def upt_rec)
  have prefix: "has_path_prefix ''/proj/src'' ''/proj''"
    "has_path_prefix ''/proj/src/a/'' ''/proj''" "has_path_prefix ''/proj/src/x.c'' ''/proj''"
    by (simp_all add: has_path_prefix_def)
  have relative: "make_path_relative ''/proj'' ''/proj/src/a/'' (Some ''/proj/src'') = Inr ''a/''"
    "make_path_relative ''/proj'' ''/proj/src'' (Some ''/proj/src'') = Inr ''.''"
    "make_path_relative ''/proj'' ''/proj/src/x.c'' (Some ''/proj/./src'') = Inr ''../../src/x.c''"
    using dots slashes
    by (simp_all add: make_path_relative_def prefix scan c_at_def Let_def)
  from prefix(1) absolute normal relative show ?thesis
    by simp
qed

section \<open>Properties of the retry driver\<close>

lemma retry_body_failing:
  assumes "rpc (invocations s) = Returns st" and "\<not> ok st"
    and "error_code st \<noteq> UNAUTHENTICATED" and "time_delay D (n_attempts s) = Some d"
  shows "retry_body L D rpc ctx s =
    (if n_attempts s < L then
       s\<lparr>last_status := st, invocations := invocations s + 1,
         n_attempts := n_attempts s + 1,
         trace := trace s @ [new_client_context ctx, Invocation (invocations s),
           LogError (''Attempt '' @ to_string (n_attempts s + 1) @ ''/'' @
                         to_string (L + 1) @ '' failed with gRPC error '' @
                         to_string (error_code st) @ '': '' @ error_message st @
                         ''. Retrying in '' @ to_string d @ '' ms...''), Sleep d]\<rparr>
     else
       s\<lparr>last_status := st, invocations := invocations s + 1,
         n_attempts := n_attempts s + 1,
         trace := trace s @ [new_client_context ctx, Invocation (invocations s)]\<rparr>, None)"
  using assms by (simp add: retry_body_def Let_def)

lemma retry_body_last:
  assumes "rpc (invocations s) = Returns st" and "\<not> ok st"
    and "error_code st \<noteq> UNAUTHENTICATED" and "\<not> n_attempts s < L"
  shows "retry_body L D rpc ctx s =
    (s\<lparr>last_status := st, invocations := invocations s + 1,
         n_attempts := n_attempts s + 1,
         trace := trace s @ [new_client_context ctx, Invocation (invocations s)]\<rparr>, None)"
  using assms by (simp add: retry_body_def Let_def)

lemma delays_fitD:
  assumes "delays_fit L D" and "int k < L"
  shows "time_delay D (int k) = Some (D * 2 ^ k)"
proof -
  from assms(2) have "k \<in> set [0 ..< nat L]"
    by auto
  with assms(1) have "time_delay D (int k) \<noteq> None"
    unfolding delays_fit_def list_all_iff by blast
  then show ?thesis
    by (auto simp: time_delay_def Let_def split: if_splits)
qed

lemma retry_loop_failing:
  assumes fail: "\<forall>k. \<not> ok (sts k) \<and> error_code (sts k) \<noteq> UNAUTHENTICATED"
    and fit: "delays_fit L D"
  shows "n_attempts s = int k \<Longrightarrow> invocations s = k \<Longrightarrow> k \<le> nat L \<Longrightarrow> 0 \<le> L \<Longrightarrow>
    (case retry_loop L D (\<lambda>k. Returns (sts k)) ctx s of (s', r) \<Rightarrow>
       invocations s' = nat L + 1 \<and>
       filter call_or_sleep (trace s') =
         filter call_or_sleep (trace s) @ concat (map (expected_attempt L D) [k ..< nat L + 1]) \<and>
       r = Returns (Inl (RuntimeError (retry_error_message L (sts (nat L))))))"
proof (induction "nat L - k" arbitrary: s k)
  case 0
  then have k: "int k = L" "k = nat L"
    by simp_all
  have nl: "\<not> n_attempts s < L"
    using 0 k by simp
  have body: "retry_body L D (\<lambda>k. Returns (sts k)) ctx s =
    (s\<lparr>last_status := sts k, invocations := k + 1, n_attempts := int k + 1,
         trace := trace s @ [new_client_context ctx, Invocation k]\<rparr>, None)"
    using retry_body_last [OF _ _ _ nl, of "\<lambda>k. Returns (sts k)" "sts k" D ctx] fail 0 by simp
  have up: "[k ..< nat L + 1] = [k]"
    using k by simp
  show ?case
    by (subst retry_loop.simps) (simp add: body up k expected_attempt_def new_client_context_def)
next
  case (Suc m)
  then have lt: "int k < L"
    by linarith
  have d: "time_delay D (n_attempts s) = Some (D * 2 ^ k)"
    using delays_fitD [OF fit lt] Suc by simp
  define s2 where "s2 = s\<lparr>last_status := sts k, invocations := k + 1, n_attempts := int k + 1,
         trace := trace s @ [new_client_context ctx, Invocation k,
           LogError (''Attempt '' @ to_string (int k + 1) @ ''/'' @
                         to_string (L + 1) @ '' failed with gRPC error '' @
                         to_string (error_code (sts k)) @ '': '' @
                         error_message (sts k) @
                         ''. Retrying in '' @ to_string (D * 2 ^ k) @ '' ms...''),
           Sleep (D * 2 ^ k)]\<rparr>"
  have body: "retry_body L D (\<lambda>k. Returns (sts k)) ctx s = (s2, None)"
    using retry_body_failing [OF _ _ _ d, of "\<lambda>k. Returns (sts k)" "sts k" L ctx] fail Suc.prems lt
    by (simp add: s2_def)
  have s2: "n_attempts s2 = int (k + 1)" "invocations s2 = k + 1"
    by (simp_all add: s2_def)
  have m: "m = nat L - (k + 1)" and le: "k + 1 \<le> nat L"
    using Suc.hyps(2) by simp_all
  have ih: "(case retry_loop L D (\<lambda>k. Returns (sts k)) ctx s2 of (s', r) \<Rightarrow>
       invocations s' = nat L + 1 \<and>
       filter call_or_sleep (trace s') =
         filter call_or_sleep (trace s2) @ concat (map (expected_attempt L D) [k + 1 ..< nat L + 1]) \<and>
       r = Returns (Inl (RuntimeError (retry_error_message L (sts (nat L))))))"
    using Suc.hyps(1) [OF m s2 le Suc.prems(4)] .
  have loop: "retry_loop L D (\<lambda>k. Returns (sts k)) ctx s = retry_loop L D (\<lambda>k. Returns (sts k)) ctx s2"
    using lt by (subst retry_loop.simps) (simp add: body s2)
  have up: "[k ..< nat L + 1] = k # [k + 1 ..< nat L + 1]"
    using le by (simp add: upt_conv_Cons)
  have tr: "filter call_or_sleep (trace s2) =
      filter call_or_sleep (trace s) @ expected_attempt L D k"
    using lt by (simp add: s2_def expected_attempt_def new_client_context_def)
  show ?case
    using ih unfolding loop up tr by (simp split: prod.splits)
qed

text \<open>The invocations still possible from a state: one per attempt left, one for the replay.\<close>

definition budget :: "int \<Rightarrow> retry_state \<Rightarrow> nat" where
  "budget L s = nat (L + 1 - n_attempts s) + (if refreshed s then 0 else 1)"

lemma retry_body_invocations:
  "retry_body L D rpc ctx s = (s', r) \<Longrightarrow> invocations s' = invocations s + 1"
  by (auto simp: retry_body_def Let_def split: if_splits option.splits call.splits)

lemma retry_body_budget:
  "retry_body L D rpc ctx s = (s', None) \<Longrightarrow> n_attempts s \<le> L \<Longrightarrow> budget L s' + 1 \<le> budget L s"
  by (auto simp: retry_body_def Let_def budget_def split: if_splits option.splits call.splits)

lemma retry_loop_bound:
  "n_attempts s \<le> L \<Longrightarrow>
   invocations (fst (retry_loop L D rpc ctx s)) \<le> invocations s + budget L s"
proof (induction "budget L s" arbitrary: s rule: less_induct)
  case less
  obtain s' r where body: "retry_body L D rpc ctx s = (s', r)"
    by (cases "retry_body L D rpc ctx s")
  have inv: "invocations s' = invocations s + 1"
    using body by (rule retry_body_invocations)
  have pos: "1 \<le> budget L s"
    using less.prems by (simp add: budget_def)
  show ?case
  proof (cases r)
    case (Some x)
    then show ?thesis
      using pos inv by (subst retry_loop.simps) (simp add: body)
  next
    case None
    have b: "budget L s' + 1 \<le> budget L s"
      using body less.prems unfolding None by (rule retry_body_budget)
    show ?thesis
    proof (cases "n_attempts s' < L + 1")
      case True
      then have "n_attempts s' \<le> L"
        by simp
      moreover have "budget L s' < budget L s"
        using b by simp
      ultimately have "invocations (fst (retry_loop L D rpc ctx s')) \<le> invocations s' + budget L s'"
        using less.hyps by blast
      moreover have "retry_loop L D rpc ctx s = retry_loop L D rpc ctx s'"
        using True by (subst retry_loop.simps) (simp add: body None)
      ultimately show ?thesis
        using b inv by simp
    next
      case False
      then show ?thesis
        using pos inv by (subst retry_loop.simps) (simp add: body None)
    qed
  qed
qed

text \<open>
  Claim C1, as amended. Let \<open>RECC_RETRY_LIMIT\<close> be at least 0 and let every delay
  \<open>RECC_RETRY_DELAY * 2^n\<close> for \<open>n < RECC_RETRY_LIMIT\<close> be in the range of \<open>int\<close>. If the
  wrapped call returns a status that is neither OK nor UNAUTHENTICATED on every attempt, it
  is invoked exactly \<open>RECC_RETRY_LIMIT + 1\<close> times, the sleep between attempt \<open>n\<close> and attempt
  \<open>n + 1\<close> is \<open>RECC_RETRY_DELAY * 2^n\<close> milliseconds (there is none after the last attempt),
  and \<open>grpc_retry\<close> throws a runtime error for the last status: its message is
  \<open>Retry limit exceeded. Last gRPC error was <code>: <msg>\<close> when \<open>RECC_RETRY_LIMIT > 0\<close>,
  and only \<open><code>: <msg>\<close> when \<open>RECC_RETRY_LIMIT = 0\<close>. Whatever the wrapped call
  returns (an UNAUTHENTICATED replay included), it is invoked at most
  \<open>RECC_RETRY_LIMIT + 2\<close> times.
\<close>

theorem grpc_retry_exhausted:
  assumes limit: "0 \<le> L"
    and fit: "delays_fit L D"
    and fail: "\<forall>k. \<not> ok (sts k) \<and> error_code (sts k) \<noteq> UNAUTHENTICATED"
  shows "invocations (fst (grpc_retry L D (\<lambda>k. Returns (sts k)) ctx)) = nat L + 1 \<and>
         filter call_or_sleep (trace (fst (grpc_retry L D (\<lambda>k. Returns (sts k)) ctx))) =
           concat (map (expected_attempt L D) [0 ..< nat L + 1]) \<and>
         snd (grpc_retry L D (\<lambda>k. Returns (sts k)) ctx) =
           Returns (Inl (RuntimeError
             ((if L > 0 then ''Retry limit exceeded. Last gRPC error was '' else []) @
              to_string (error_code (sts (nat L))) @ '': '' @ error_message (sts (nat L))))) \<and>
         invocations (fst (grpc_retry L D any_rpc ctx)) \<le> nat L + 2"
proof -
  let ?s0 = "\<lparr>n_attempts = 0, refreshed = False,
      last_status = \<lparr>error_code = 0, error_message = []\<rparr>, invocations = 0, trace = []\<rparr>"
  let ?rpc = "\<lambda>k. Returns (sts k)"
  have "case retry_loop L D ?rpc ctx ?s0 of (s', r) \<Rightarrow>
       invocations s' = nat L + 1 \<and>
       filter call_or_sleep (trace s') =
         filter call_or_sleep (trace ?s0) @ concat (map (expected_attempt L D) [0 ..< nat L + 1]) \<and>
       r = Returns (Inl (RuntimeError (retry_error_message L (sts (nat L)))))"
    using fail fit _ _ _ limit by (rule retry_loop_failing) simp_all
  then have first: "invocations (fst (grpc_retry L D ?rpc ctx)) = nat L + 1 \<and>
         filter call_or_sleep (trace (fst (grpc_retry L D ?rpc ctx))) =
           concat (map (expected_attempt L D) [0 ..< nat L + 1]) \<and>
         snd (grpc_retry L D ?rpc ctx) =
           Returns (Inl (RuntimeError (retry_error_message L (sts (nat L)))))"
    by (simp add: grpc_retry_def split: prod.splits)
  have msg: "retry_error_message L (sts (nat L)) =
      (if L > 0 then ''Retry limit exceeded. Last gRPC error was '' else []) @
        to_string (error_code (sts (nat L))) @ '': '' @ error_message (sts (nat L))"
    by (simp add: retry_error_message_def Let_def)
  have "invocations (fst (retry_loop L D any_rpc ctx ?s0)) \<le> invocations ?s0 + budget L ?s0"
    by (rule retry_loop_bound) (simp add: limit)
  moreover have "budget L ?s0 = nat L + 2"
    using limit by (simp add: budget_def nat_add_distrib)
  ultimately have "invocations (fst (grpc_retry L D any_rpc ctx)) \<le> nat L + 2"
    by (simp add: grpc_retry_def)
  with first show ?thesis
    unfolding msg by blast
qed

text \<open>
  The loop equation with the case distinction as conditionals, for evaluation: a branch is
  rewritten only once its condition is decided.
\<close>

lemma retry_loop_eval:
  "retry_loop L D rpc ctx s =
     (if snd (retry_body L D rpc ctx s) = None then
        (if n_attempts (fst (retry_body L D rpc ctx s)) < L + 1
         then retry_loop L D rpc ctx (fst (retry_body L D rpc ctx s))
         else (fst (retry_body L D rpc ctx s),
               Returns (Inl (RuntimeError (retry_error_message L
                 (last_status (fst (retry_body L D rpc ctx s))))))))
      else (fst (retry_body L D rpc ctx s), the (snd (retry_body L D rpc ctx s))))"
  by (subst retry_loop.simps) (auto split: prod.splits option.splits)

theorem grpc_retry_exhausted_witness:
  "(0::int) \<le> 2 \<and> delays_fit 2 10 \<and>
   invocations (fst (grpc_retry 2 10
     (\<lambda>k. Returns \<lparr>error_code = 14, error_message = ''unavailable''\<rparr>)
     \<lparr>d_authSession = None, d_action_id = []\<rparr>)) = 3 \<and>
   filter call_or_sleep (trace (fst (grpc_retry 2 10
     (\<lambda>k. Returns \<lparr>error_code = 14, error_message = ''unavailable''\<rparr>)
     \<lparr>d_authSession = None, d_action_id = []\<rparr>))) =
     [Invocation 0, Sleep 10, Invocation 1, Sleep 20, Invocation 2] \<and>
   snd (grpc_retry 2 10 (\<lambda>k. Returns \<lparr>error_code = 14, error_message = ''unavailable''\<rparr>)
     \<lparr>d_authSession = None, d_action_id = []\<rparr>) =
     Returns (Inl (RuntimeError ''Retry limit exceeded. Last gRPC error was 14: unavailable'')) \<and>
   invocations (fst (grpc_retry 2 10
     (\<lambda>k. Returns \<lparr>error_code = 16, error_message = ''expired''\<rparr>)
     \<lparr>d_authSession = None, d_action_id = []\<rparr>)) \<le> 4"
proof -
  have fit: "delays_fit 2 10"
    by (simp add: delays_fit_def time_delay_def upt_rec)
  have fail: "\<forall>k. \<not> ok (\<lparr>error_code = 14, error_message = ''unavailable''\<rparr>) \<and>
      error_code (\<lparr>error_code = 14, error_message = ''unavailable''\<rparr>) \<noteq> UNAUTHENTICATED"
    by (simp add: ok_def UNAUTHENTICATED_def)
  have up: "concat (map (expected_attempt 2 10) [0 ..< 3]) =
      [Invocation 0, Sleep 10, Invocation 1, Sleep 20, Invocation 2]"
    by (simp add: upt_rec expected_attempt_def)
  have str: "to_string 14 = ''14''"
    by (simp add: to_string_def digits.simps)
  show ?thesis
    using grpc_retry_exhausted [of 2 10 "\<lambda>k. \<lparr>error_code = 14, error_message = ''unavailable''\<rparr>"
        "\<lparr>d_authSession = None, d_action_id = []\<rparr>"
        "\<lambda>k. Returns \<lparr>error_code = 16, error_message = ''expired''\<rparr>", OF _ fit fail]
    by (simp add: fit up str)
qed

text \<open>
  Claim C1 as stated fails where \<open>RECC_RETRY_LIMIT\<close> is 0: the call is invoked once and the
  error thrown has the message \<open>14: unavailable\<close>, without the words \<open>Retry limit exceeded\<close>.
  Below 0 the call is still invoked once, which is not \<open>RECC_RETRY_LIMIT + 1\<close>; and a delay
  beyond the range of \<open>int\<close> (here \<open>2^30 * 2^1\<close>) has no defined value.
\<close>

theorem grpc_retry_exhausted_counterexample:
  "grpc_retry 0 100 (\<lambda>k. Returns \<lparr>error_code = 14, error_message = ''unavailable''\<rparr>)
     \<lparr>d_authSession = None, d_action_id = []\<rparr> =
     (\<lparr>n_attempts = 1, refreshed = False,
        last_status = \<lparr>error_code = 14, error_message = ''unavailable''\<rparr>,
        invocations = 1, trace = [NewClientContext None, Invocation 0]\<rparr>,
      Returns (Inl (RuntimeError ''14: unavailable''))) \<and>
   invocations (fst (grpc_retry (- 1) 100
     (\<lambda>k. Returns \<lparr>error_code = 14, error_message = ''unavailable''\<rparr>)
     \<lparr>d_authSession = None, d_action_id = []\<rparr>)) = 1 \<and>
   snd (grpc_retry 2 (2 ^ 30) (\<lambda>k. Returns \<lparr>error_code = 14, error_message = ''unavailable''\<rparr>)
     \<lparr>d_authSession = None, d_action_id = []\<rparr>) = Returns (Inl Undefined)"
  by (simp add: grpc_retry_def retry_loop_eval retry_body_def Let_def ok_def UNAUTHENTICATED_def
      retry_error_message_def to_string_def digits.simps new_client_context_def time_delay_def)

lemma retry_body_no_refresh:
  "retry_body L D rpc ctx s = (s', r) \<Longrightarrow> AuthRefresh \<notin> set (trace s) \<Longrightarrow>
   AuthRefresh \<notin> set (trace s')"
  by (auto simp: retry_body_def Let_def new_client_context_def
      split: if_splits option.splits call.splits)

lemma retry_loop_no_refresh:
  "AuthRefresh \<notin> set (trace s) \<Longrightarrow> AuthRefresh \<notin> set (trace (fst (retry_loop L D rpc ctx s)))"
proof (induction "2 * nat (L + 1 - n_attempts s) + (if refreshed s then 0 else (1::nat))"
    arbitrary: s rule: less_induct)
  case less
  obtain s' r where body: "retry_body L D rpc ctx s = (s', r)"
    by (cases "retry_body L D rpc ctx s")
  have s': "AuthRefresh \<notin> set (trace s')"
    using body less.prems by (rule retry_body_no_refresh)
  show ?case
  proof (cases "r = None \<and> n_attempts s' < L + 1")
    case True
    then have "2 * nat (L + 1 - n_attempts s') + (if refreshed s' then 0 else 1)
        < 2 * nat (L + 1 - n_attempts s) + (if refreshed s then 0 else (1::nat))"
      using retry_body_decreases [of L D rpc ctx s s'] body by simp
    then have "AuthRefresh \<notin> set (trace (fst (retry_loop L D rpc ctx s')))"
      using less.hyps s' by blast
    moreover have "retry_loop L D rpc ctx s = retry_loop L D rpc ctx s'"
      using True by (subst retry_loop.simps) (simp add: body)
    ultimately show ?thesis by simp
  next
    case False
    then have "fst (retry_loop L D rpc ctx s) = s'"
      by (subst retry_loop.simps) (auto simp: body split: option.splits)
    with s' show ?thesis by simp
  qed
qed

text \<open>
  Claim C2 against the code. \<open>grpc_retry\<close> never calls \<open>GrpcContext::auth_refresh\<close>: no trace
  of it holds the event \<open>AuthRefresh\<close>. With \<open>RECC_RETRY_LIMIT = 1\<close> and a call that returns
  UNAUTHENTICATED and then OK, the flag \<open>refreshed\<close> is set and the call is invoked a second
  time, uncounted (\<open>n_attempts\<close> stays 0), under the credentials of the first invocation;
  \<open>auth_refresh\<close> on the same context would have refreshed the token.
\<close>

theorem grpc_retry_never_refreshes:
  "AuthRefresh \<notin> set (trace (fst (grpc_retry L D rpc ctx))) \<and>
   grpc_retry 1 100
     (\<lambda>k. if k = 0 then Returns \<lparr>error_code = 16, error_message = ''token expired''\<rparr>
          else Returns \<lparr>error_code = 0, error_message = []\<rparr>)
     \<lparr>d_authSession = Some ''token'', d_action_id = []\<rparr> =
     (\<lparr>n_attempts = 0, refreshed = True, last_status = \<lparr>error_code = 0, error_message = []\<rparr>,
        invocations = 2,
        trace = [NewClientContext (Some ''token''), Invocation 0,
                 NewClientContext (Some ''token''), Invocation 1]\<rparr>,
      Returns (Inr ())) \<and>
   auth_refresh \<lparr>d_authSession = Some ''token'', d_action_id = []\<rparr> = ([AuthRefresh], Inr ())"
proof -
  have "AuthRefresh \<notin> set (trace (fst (grpc_retry L D rpc ctx)))"
    unfolding grpc_retry_def by (rule retry_loop_no_refresh) simp
  moreover have "grpc_retry 1 100
     (\<lambda>k. if k = 0 then Returns \<lparr>error_code = 16, error_message = ''token expired''\<rparr>
          else Returns \<lparr>error_code = 0, error_message = []\<rparr>)
     \<lparr>d_authSession = Some ''token'', d_action_id = []\<rparr> =
     (\<lparr>n_attempts = 0, refreshed = True, last_status = \<lparr>error_code = 0, error_message = []\<rparr>,
        invocations = 2,
        trace = [NewClientContext (Some ''token''), Invocation 0,
                 NewClientContext (Some ''token''), Invocation 1]\<rparr>,
      Returns (Inr ()))"
    by (simp add: grpc_retry_def retry_loop_eval retry_body_def Let_def ok_def
        UNAUTHENTICATED_def new_client_context_def)
  moreover have "auth_refresh \<lparr>d_authSession = Some ''token'', d_action_id = []\<rparr> =
      ([AuthRefresh], Inr ())"
    by (simp add: auth_refresh_def)
  ultimately show ?thesis by blast
qed

section \<open>Properties of the configuration parser\<close>


section \<open>Properties of the execution client\<close>

lemma read_operation_async_not_done:
  "list_all (\<lambda>received. \<not> op_done received) stream \<Longrightarrow> \<not> op_done operation \<Longrightarrow>
   \<not> op_done (read_operation_async stream operation)"
  by (induction stream arbitrary: operation) auto

lemma get_actionresult_error_set:
  assumes "op_done operation" and "has_error operation"
  shows "\<exists>e. get_actionresult P operation = Inl e"
proof -
  from assms(2) have "op_response operation = \<lparr>type_url = [], any_value = []\<rparr>"
    by (auto simp: has_error_def op_response_def split: operation_result.splits)
  then have "UnpackTo P (op_response operation) = None"
    by (simp add: UnpackTo_def Is_ExecuteResponse_def)
  with assms show ?thesis
    by (cases "ensure_ok (op_error operation)") (simp_all add: get_actionresult_def)
qed

lemma get_actionresult_no_unpack:
  assumes "op_done operation" and "UnpackTo P (op_response operation) = None"
  shows "\<exists>e. get_actionresult P operation = Inl e"
  using assms by (auto simp: get_actionresult_def split: sum.splits)

lemma get_actionresult_bad_status:
  assumes "op_done operation" and "UnpackTo P (op_response operation) = Some r"
    and "\<not> ok (er_status r)"
  shows "\<exists>e. get_actionresult P operation = Inl e"
  using assms by (auto simp: get_actionresult_def ensure_ok_def split: sum.splits)

lemma get_actionresult_ok:
  assumes "op_done operation" and "\<not> has_error operation"
    and "UnpackTo P (op_response operation) = Some r" and "ok (er_status r)"
  shows "get_actionresult P operation = Inr (er_result r)"
proof -
  from assms(3) have "Is_ExecuteResponse (op_response operation)"
    by (auto simp: UnpackTo_def split: if_splits)
  with assms show ?thesis
    by (simp add: get_actionresult_def ensure_ok_def)
qed

text \<open>
  Claim C3. If \<open>grpc_retry\<close> returns (the stream of the last invocation was finished with an
  OK status) and none of the operations that stream delivered is done, \<open>execute_action\<close>
  throws the runtime error \<open>Server closed stream before Operation finished\<close>. For an
  operation that is done, \<open>get_actionresult\<close> throws if the error member is set, if the
  response does not unpack to an \<open>ExecuteResponse\<close>, or if the status of the unpacked
  \<open>ExecuteResponse\<close> is not OK; otherwise it returns the \<open>ActionResult\<close> of the response.
\<close>

theorem execute_action_operation_result:
  "(snd (grpc_retry L D (\<lambda>k. execute_lambda C ctx (attempts k)) ctx) = Returns (Inr ()) \<and>
    list_all (\<lambda>received. \<not> op_done received)
      (at_stream (attempts
         (invocations (fst (grpc_retry L D (\<lambda>k. execute_lambda C ctx (attempts k)) ctx)) - 1)))
    \<longrightarrow> execute_action L D depth F M P C ctx attempts =
       Returns (Inl (RuntimeError ''Server closed stream before Operation finished''))) \<and>
   (op_done operation \<and> has_error operation \<longrightarrow> (\<exists>e. get_actionresult P operation = Inl e)) \<and>
   (op_done operation \<and> UnpackTo P (op_response operation) = None
    \<longrightarrow> (\<exists>e. get_actionresult P operation = Inl e)) \<and>
   (op_done operation \<and> UnpackTo P (op_response operation) = Some r \<and> \<not> ok (er_status r)
    \<longrightarrow> (\<exists>e. get_actionresult P operation = Inl e)) \<and>
   (op_done operation \<and> \<not> has_error operation \<and>
    UnpackTo P (op_response operation) = Some r \<and> ok (er_status r)
    \<longrightarrow> get_actionresult P operation = Inr (er_result r))"
proof -
  let ?retry = "grpc_retry L D (\<lambda>k. execute_lambda C ctx (attempts k)) ctx"
  have "execute_action L D depth F M P C ctx attempts =
       Returns (Inl (RuntimeError ''Server closed stream before Operation finished''))"
    if ret: "snd ?retry = Returns (Inr ())"
      and open_ops: "list_all (\<lambda>received. \<not> op_done received)
        (at_stream (attempts (invocations (fst ?retry) - 1)))"
  proof -
    obtain s where s: "?retry = (s, Returns (Inr ()))"
      using ret by (cases ?retry) auto
    have "\<not> op_done (read_operation_async (at_stream (attempts (invocations s - 1)))
        \<lparr>op_name = [], op_done = False, op_result = ResultNotSet\<rparr>)"
      using open_ops s by (intro read_operation_async_not_done) simp_all
    then show ?thesis
      by (simp add: execute_action_def s)
  qed
  then show ?thesis
    using get_actionresult_error_set get_actionresult_no_unpack get_actionresult_bad_status
      get_actionresult_ok by blast
qed

text \<open>Example messages for the closed instances below.\<close>

definition example_result :: proto_action_result where
  "example_result =
     \<lparr>exit_code = 0, stdout_raw = ''built'', stdout_digest = \<lparr>dg_hash = [], dg_size_bytes = 0\<rparr>,
      stderr_raw = [], stderr_digest = \<lparr>dg_hash = [], dg_size_bytes = 0\<rparr>,
      output_files = [\<lparr>of_path = ''hello.o'',
                       of_digest = \<lparr>dg_hash = ''ab12'', dg_size_bytes = 1234\<rparr>,
                       of_is_executable = False\<rparr>],
      output_directories = []\<rparr>"

definition example_parser :: "string \<Rightarrow> execute_response option" where
  "example_parser v =
     (if v = ''good'' then
        Some \<lparr>er_result = example_result, er_status = \<lparr>error_code = 0, error_message = []\<rparr>,
              er_message = []\<rparr>
      else if v = ''failed'' then
        Some \<lparr>er_result = example_result,
              er_status = \<lparr>error_code = 9, error_message = ''precondition''\<rparr>, er_message = []\<rparr>
      else None)"

definition example_response :: "string \<Rightarrow> operation" where
  "example_response v =
     \<lparr>op_name = ''op-42'', op_done = True,
      op_result = Response
        \<lparr>type_url = ''type.googleapis.com/build.bazel.remote.execution.v2.ExecuteResponse'',
         any_value = v\<rparr>\<rparr>"

definition example_attempt :: "nat \<Rightarrow> attempt" where
  "example_attempt k =
     \<lparr>at_polls = [\<lparr>future_ready = True, sigint_received = False,
                    seen_operation = \<lparr>op_name = ''op-42'', op_done = False,
                                       op_result = ResultNotSet\<rparr>\<rparr>],
      at_stream = [\<lparr>op_name = ''op-42'', op_done = False, op_result = ResultNotSet\<rparr>],
      at_finish = \<lparr>error_code = 0, error_message = []\<rparr>\<rparr>"

lemma example_unpack:
  "UnpackTo example_parser (op_response (example_response v)) = example_parser v"
  by (simp add: UnpackTo_def Is_ExecuteResponse_def op_response_def example_response_def)

theorem execute_action_operation_result_witness:
  "execute_action 0 100 0 (\<lambda>d. Inl OutOfRange) (\<lambda>d. \<lparr>dg_hash = [], dg_size_bytes = 0\<rparr>)
     example_parser (\<lambda>n. \<lparr>error_code = 0, error_message = []\<rparr>)
     \<lparr>d_authSession = None, d_action_id = []\<rparr> example_attempt =
     Returns (Inl (RuntimeError ''Server closed stream before Operation finished'')) \<and>
   (\<exists>e. get_actionresult example_parser
      \<lparr>op_name = ''op-42'', op_done = True,
       op_result = Error \<lparr>error_code = 3, error_message = ''invalid''\<rparr>\<rparr> = Inl e) \<and>
   (\<exists>e. get_actionresult example_parser (example_response ''garbage'') = Inl e) \<and>
   (\<exists>e. get_actionresult example_parser (example_response ''failed'') = Inl e) \<and>
   get_actionresult example_parser (example_response ''good'') = Inr example_result"
proof -
  let ?ctx = "\<lparr>d_authSession = None, d_action_id = []\<rparr>"
  let ?C = "\<lambda>n::string. \<lparr>error_code = 0, error_message = []\<rparr>"
  have retry: "grpc_retry 0 100 (\<lambda>k. execute_lambda ?C ?ctx (example_attempt k)) ?ctx =
      (\<lparr>n_attempts = 0, refreshed = False, last_status = \<lparr>error_code = 0, error_message = []\<rparr>,
        invocations = 1, trace = [NewClientContext None, Invocation 0]\<rparr>, Returns (Inr ()))"
    by (simp add: grpc_retry_def retry_loop_eval retry_body_def Let_def ok_def
        execute_lambda_def example_attempt_def new_client_context_def)
  have 1: "execute_action 0 100 0 (\<lambda>d. Inl OutOfRange) (\<lambda>d. \<lparr>dg_hash = [], dg_size_bytes = 0\<rparr>)
     example_parser ?C ?ctx example_attempt =
     Returns (Inl (RuntimeError ''Server closed stream before Operation finished''))"
  proof -
    have "snd (grpc_retry 0 100 (\<lambda>k. execute_lambda ?C ?ctx (example_attempt k)) ?ctx) =
        Returns (Inr ()) \<and>
      list_all (\<lambda>received. \<not> op_done received)
        (at_stream (example_attempt (invocations (fst (grpc_retry 0 100
           (\<lambda>k. execute_lambda ?C ?ctx (example_attempt k)) ?ctx)) - 1)))"
      by (simp add: retry) (simp add: example_attempt_def)
    then show ?thesis
      using execute_action_operation_result [of 0 100 ?C ?ctx example_attempt 0
        "\<lambda>d. Inl OutOfRange" "\<lambda>d. \<lparr>dg_hash = [], dg_size_bytes = 0\<rparr>" example_parser]
      by blast
  qed
  have 2: "\<exists>e. get_actionresult example_parser
      \<lparr>op_name = ''op-42'', op_done = True,
       op_result = Error \<lparr>error_code = 3, error_message = ''invalid''\<rparr>\<rparr> = Inl e"
    using execute_action_operation_result [of _ _ _ _ _ _ _ _ example_parser
        "\<lparr>op_name = ''op-42'', op_done = True,
          op_result = Error \<lparr>error_code = 3, error_message = ''invalid''\<rparr>\<rparr>"]
    by (simp add: has_error_def)
  have 3: "\<exists>e. get_actionresult example_parser (example_response ''garbage'') = Inl e"
    using execute_action_operation_result [of _ _ _ _ _ _ _ _ example_parser
        "example_response ''garbage''"]
    by (simp add: example_unpack) (simp add: example_parser_def example_response_def)
  have 4: "\<exists>e. get_actionresult example_parser (example_response ''failed'') = Inl e"
    using execute_action_operation_result [of _ _ _ _ _ _ _ _ example_parser
        "example_response ''failed''"
        "\<lparr>er_result = example_result,
          er_status = \<lparr>error_code = 9, error_message = ''precondition''\<rparr>, er_message = []\<rparr>"]
    by (simp add: example_unpack) (simp add: example_parser_def example_response_def ok_def)
  have 5: "get_actionresult example_parser (example_response ''good'') = Inr example_result"
    using execute_action_operation_result [of _ _ _ _ _ _ _ _ example_parser
        "example_response ''good''"
        "\<lparr>er_result = example_result, er_status = \<lparr>error_code = 0, error_message = []\<rparr>,
          er_message = []\<rparr>"]
    by (simp add: example_unpack)
      (simp add: example_parser_def example_response_def ok_def has_error_def)
  from 1 2 3 4 5 show ?thesis
    by blast
qed

text \<open>The events of a cancellation: a new client context and the \<open>CancelOperation\<close> call.\<close>

fun cancellation_event :: "event \<Rightarrow> bool" where
  "cancellation_event (NewClientContext credentials) = True"
| "cancellation_event (CancelOperation operationName) = True"
| "cancellation_event e = False"

lemma read_operation_skip:
  "list_all (\<lambda>q. \<not> sigint_received q \<and> \<not> future_ready q) before \<Longrightarrow>
   read_operation C ctx (before @ polls) = read_operation C ctx polls"
  by (induction before) auto

lemma grpc_retry_first_exits:
  assumes "rpc 0 = Exits code"
  shows "snd (grpc_retry L D rpc ctx) = Exits code"
  using assms unfolding grpc_retry_def
  by (subst retry_loop.simps) (simp add: retry_body_def Let_def)

text \<open>
  Claim C8. Let the polls of \<open>read_operation\<close> first see neither the future ready nor the
  SIGINT flag (the operation is in flight), and then see the flag. Then \<open>read_operation\<close>
  ends the process with exit code 130, whatever status the \<open>CancelOperation\<close> call returns.
  Before that it issues \<open>CancelOperation\<close> with the name of the operation, on a new client
  context, if that name is not empty, and issues nothing if it is empty. When this happens in
  the first invocation of the lambda, \<open>execute_action\<close> ends the process with 130.
\<close>

theorem sigint_cancels_and_exits:
  assumes flight: "list_all (\<lambda>q. \<not> sigint_received q \<and> \<not> future_ready q) before"
    and sigint: "sigint_received p"
  shows "snd (read_operation C ctx (before @ p # later)) = Exits 130 \<and>
         filter cancellation_event (fst (read_operation C ctx (before @ p # later))) =
           (if op_name (seen_operation p) \<noteq> []
            then [new_client_context ctx, CancelOperation (op_name (seen_operation p))]
            else []) \<and>
         (at_polls (attempts 0) = before @ p # later \<longrightarrow>
            execute_action L D depth F M P C ctx attempts = Exits 130)"
proof -
  have r: "read_operation C ctx (before @ p # later) =
      (LogWarning (''Cancelling job, operation name: '' @ op_name (seen_operation p)) #
         (if op_name (seen_operation p) \<noteq> []
          then cancel_operation C ctx (op_name (seen_operation p)) else []), Exits 130)"
    using sigint by (simp add: read_operation_skip [OF flight])
  have "execute_action L D depth F M P C ctx attempts = Exits 130"
    if "at_polls (attempts 0) = before @ p # later"
  proof -
    have "execute_lambda C ctx (attempts 0) = Exits 130"
      by (simp add: execute_lambda_def that r)
    then have "snd (grpc_retry L D (\<lambda>k. execute_lambda C ctx (attempts k)) ctx) = Exits 130"
      by (rule grpc_retry_first_exits)
    then obtain s where "grpc_retry L D (\<lambda>k. execute_lambda C ctx (attempts k)) ctx = (s, Exits 130)"
      by (cases "grpc_retry L D (\<lambda>k. execute_lambda C ctx (attempts k)) ctx") auto
    then show ?thesis
      by (simp add: execute_action_def)
  qed
  then show ?thesis
    by (simp add: r cancel_operation_def new_client_context_def)
qed

text \<open>
  An interrupted run: the first poll sees an unnamed operation in flight, the second sees the
  SIGINT flag and the name \<open>op-42\<close>; the \<open>CancelOperation\<close> call fails.
\<close>

definition example_polls :: "poll list" where
  "example_polls =
     [\<lparr>future_ready = False, sigint_received = False,
       seen_operation = \<lparr>op_name = [], op_done = False, op_result = ResultNotSet\<rparr>\<rparr>,
      \<lparr>future_ready = False, sigint_received = True,
       seen_operation = \<lparr>op_name = ''op-42'', op_done = False, op_result = ResultNotSet\<rparr>\<rparr>]"

definition interrupted_attempt :: "nat \<Rightarrow> attempt" where
  "interrupted_attempt k =
     \<lparr>at_polls = example_polls, at_stream = [],
      at_finish = \<lparr>error_code = 0, error_message = []\<rparr>\<rparr>"

theorem sigint_cancels_and_exits_witness:
  "read_operation (\<lambda>n. \<lparr>error_code = 14, error_message = ''unavailable''\<rparr>)
     \<lparr>d_authSession = Some ''token'', d_action_id = []\<rparr> example_polls =
     ([LogWarning ''Cancelling job, operation name: op-42'',
       NewClientContext (Some ''token''), CancelOperation ''op-42'',
       LogError ''Failed to cancel job op-42: unavailable''], Exits 130) \<and>
   filter cancellation_event
     (fst (read_operation (\<lambda>n. \<lparr>error_code = 14, error_message = ''unavailable''\<rparr>)
        \<lparr>d_authSession = Some ''token'', d_action_id = []\<rparr> example_polls)) =
     [NewClientContext (Some ''token''), CancelOperation ''op-42''] \<and>
   execute_action 2 100 0 (\<lambda>d. Inl OutOfRange) (\<lambda>d. \<lparr>dg_hash = [], dg_size_bytes = 0\<rparr>)
     example_parser (\<lambda>n. \<lparr>error_code = 14, error_message = ''unavailable''\<rparr>)
     \<lparr>d_authSession = Some ''token'', d_action_id = []\<rparr> interrupted_attempt = Exits 130"
proof -
  let ?before = "[\<lparr>future_ready = False, sigint_received = False,
       seen_operation = \<lparr>op_name = [], op_done = False, op_result = ResultNotSet\<rparr>\<rparr>]"
  let ?p = "\<lparr>future_ready = False, sigint_received = True,
       seen_operation = \<lparr>op_name = ''op-42'', op_done = False, op_result = ResultNotSet\<rparr>\<rparr>"
  let ?C = "\<lambda>n::string. \<lparr>error_code = 14, error_message = ''unavailable''\<rparr>"
  let ?ctx = "\<lparr>d_authSession = Some ''token'', d_action_id = []\<rparr>"
  have flight: "list_all (\<lambda>q. \<not> sigint_received q \<and> \<not> future_ready q) ?before"
    and sigint: "sigint_received ?p"
    by simp_all
  have polls: "example_polls = ?before @ ?p # []"
    and attempt: "at_polls (interrupted_attempt 0) = ?before @ ?p # []"
    by (simp_all add: example_polls_def interrupted_attempt_def)
  have "snd (read_operation ?C ?ctx example_polls) = Exits 130 \<and>
      filter cancellation_event (fst (read_operation ?C ?ctx example_polls)) =
        [NewClientContext (Some ''token''), CancelOperation ''op-42''] \<and>
      execute_action 2 100 0 (\<lambda>d. Inl OutOfRange) (\<lambda>d. \<lparr>dg_hash = [], dg_size_bytes = 0\<rparr>)
        example_parser ?C ?ctx interrupted_attempt = Exits 130"
    using sigint_cancels_and_exits [OF flight sigint, where C = ?C and ctx = ?ctx
        and later = "[]" and attempts = interrupted_attempt and L = 2 and D = 100 and depth = 0
        and F = "\<lambda>d. Inl OutOfRange" and M = "\<lambda>d. \<lparr>dg_hash = [], dg_size_bytes = 0\<rparr>"
        and P = example_parser] attempt
    unfolding polls by (simp add: new_client_context_def)
  moreover have "read_operation ?C ?ctx example_polls =
     ([LogWarning ''Cancelling job, operation name: op-42'',
       NewClientContext (Some ''token''), CancelOperation ''op-42'',
       LogError ''Failed to cancel job op-42: unavailable''], Exits 130)"
    by (simp add: example_polls_def cancel_operation_def new_client_context_def ok_def)
  ultimately show ?thesis
    by blast
qed

subsection \<open>What from_proto decodes\<close>

text \<open>
  The directories that are reachable from a directory through a digest map, unfolded into a
  finite tree: the files of the directory and, for each of its directory nodes in order, the
  node with the unfolded subdirectory. \<open>unfolds digestMap directory t\<close> says that \<open>t\<close> is this
  unfolding: every digest on the way is a key of the map. \<open>height\<close> is the number of nested
  calls that a walk of the tree needs.
\<close>

datatype dir_tree = Dir "file_node list" "(directory_node \<times> dir_tree) list"

fun height :: "dir_tree \<Rightarrow> nat" where
  "height (Dir fs subs) = Suc (fold max (map (\<lambda>s. height (snd s)) subs) 0)"

fun unfolds :: "(digest \<rightharpoonup> directory) \<Rightarrow> directory \<Rightarrow> dir_tree \<Rightarrow> bool" where
  "unfolds digestMap directory (Dir fs subs) =
     (dir_files directory = fs \<and> dir_directories directory = map fst subs \<and>
      list_all (\<lambda>s. case digestMap (dn_digest (fst s)) of
                       None \<Rightarrow> False
                     | Some subdirectory \<Rightarrow> unfolds digestMap subdirectory (snd s)) subs)"

text \<open>
  The output files of an unfolded directory, in the order of the walk: its own files under
  the prefix, then those of each subdirectory under the prefix extended by the name of the
  node and a slash. \<open>store\<close> puts entries into a map in order, a later entry for a path
  replacing an earlier one.
\<close>

fun tree_listing :: "string \<Rightarrow> dir_tree \<Rightarrow> (string \<times> digest \<times> bool) list" where
  "tree_listing prefix (Dir fs subs) =
     map (\<lambda>file. (prefix @ fn_name file, fn_digest file, fn_is_executable file)) fs @
     concat (map (\<lambda>s. tree_listing (prefix @ dn_name (fst s) @ ''/'') (snd s)) subs)"

definition store ::
  "(string \<times> digest \<times> bool) list \<Rightarrow> (string \<rightharpoonup> digest \<times> bool) \<Rightarrow> (string \<rightharpoonup> digest \<times> bool)" where
  "store entries out = fold (\<lambda>entry m. m(fst entry \<mapsto> snd entry)) entries out"

lemma store_append: "store (xs @ ys) out = store ys (store xs out)"
  by (simp add: store_def)

lemma store_Nil: "store [] out = out"
  by (simp add: store_def)

lemma store_files:
  "fold (\<lambda>file out. out(prefix @ fn_name file \<mapsto> (fn_digest file, fn_is_executable file))) fs out =
   store (map (\<lambda>file. (prefix @ fn_name file, fn_digest file, fn_is_executable file)) fs) out"
  by (simp add: store_def fold_map comp_def)

lemma fold_max_ge: "a \<le> fold max xs (a::nat)"
  by (induction xs arbitrary: a) (auto intro: order_trans [OF max.cobounded2])

lemma fold_max_member: "x \<in> set xs \<Longrightarrow> x \<le> fold max xs (a::nat)"
proof (induction xs arbitrary: a)
  case Nil
  then show ?case by simp
next
  case (Cons y ys)
  show ?case
  proof (cases "x = y")
    case True
    have "x \<le> max x a" by simp
    also have "\<dots> \<le> fold max ys (max x a)" by (rule fold_max_ge)
    finally show ?thesis using True by simp
  next
    case False
    with Cons show ?thesis by simp
  qed
qed

lemma fold_after_error:
  assumes "\<And>x. f x (Returns (Inl e)) = Returns (Inl e)"
  shows "fold f xs (Returns (Inl e)) = Returns (Inl e)"
  by (induction xs) (simp_all add: assms)

lemma add_from_directory_unfolds:
  "unfolds digestMap directory t \<Longrightarrow> height t \<le> depth \<Longrightarrow>
   add_from_directory depth out directory prefix digestMap =
     Returns (Inr (store (tree_listing prefix t) out))"
proof (induction t arbitrary: directory depth out prefix)
  case (Dir fs subs)
  from Dir.prems(2) obtain d where depth: "depth = Suc d"
    by (cases depth) auto
  let ?step = "\<lambda>node acc.
      case acc of
        Returns (Inr out) \<Rightarrow>
          (case digestMap (dn_digest node) of
             None \<Rightarrow> Returns (Inl OutOfRange)
           | Some subdirectory \<Rightarrow>
               add_from_directory d out subdirectory (prefix @ dn_name node @ ''/'') digestMap)
      | other \<Rightarrow> other"
  let ?listing = "\<lambda>s. tree_listing (prefix @ dn_name (fst s) @ ''/'') (snd s)"
  have files: "dir_files directory = fs" and dirs: "dir_directories directory = map fst subs"
    and subs: "list_all (\<lambda>s. case digestMap (dn_digest (fst s)) of
                       None \<Rightarrow> False
                     | Some subdirectory \<Rightarrow> unfolds digestMap subdirectory (snd s)) subs"
    using Dir.prems(1) by simp_all
  have inner: "fold ?step (map fst ss) (Returns (Inr acc)) =
      Returns (Inr (store (concat (map ?listing ss)) acc))" if "set ss \<subseteq> set subs" for ss acc
    using that
  proof (induction ss arbitrary: acc)
    case Nil
    then show ?case by (simp add: store_Nil)
  next
    case (Cons s ss)
    then have mem: "s \<in> set subs" and rest: "set ss \<subseteq> set subs"
      by simp_all
    from subs mem obtain subdirectory
      where found: "digestMap (dn_digest (fst s)) = Some subdirectory"
        and un: "unfolds digestMap subdirectory (snd s)"
      unfolding list_all_iff by (auto split: option.splits)
    have "height (snd s) \<le> fold max (map (\<lambda>s. height (snd s)) subs) 0"
      using mem by (intro fold_max_member) auto
    with Dir.prems(2) depth have h: "height (snd s) \<le> d"
      by simp
    have "snd s \<in> Basic_BNFs.snds s"
      by (cases s) simp
    from Dir.IH [OF mem this un h]
    have sub: "add_from_directory d acc subdirectory (prefix @ dn_name (fst s) @ ''/'') digestMap =
        Returns (Inr (store (?listing s) acc))" .
    show ?case
      using Cons.IH [OF rest] by (simp add: found sub store_append)
  qed
  show ?case
    unfolding depth using inner [of subs] by (simp add: files dirs store_files store_append)
qed

text \<open>
  The map \<open>digestMap\<close> that \<open>from_proto\<close> builds from the children of a tree, and the condition
  under which an output directory is decoded within a depth: its tree is fetched, and the
  root unfolds, through that map, into a tree of at most that height.
\<close>

definition digest_map :: "(directory \<Rightarrow> digest) \<Rightarrow> tree \<Rightarrow> (digest \<rightharpoonup> directory)" where
  "digest_map make_digest tree =
     fold (\<lambda>child m. m(make_digest child \<mapsto> child)) (tree_children tree) Map.empty"

definition decodes ::
  "nat \<Rightarrow> (digest \<Rightarrow> error + tree) \<Rightarrow> (directory \<Rightarrow> digest) \<Rightarrow> output_directory \<Rightarrow> dir_tree \<Rightarrow> bool"
  where
  "decodes depth fetch_message make_digest outputDirectoryProto t =
     (case fetch_message (od_tree_digest outputDirectoryProto) of
        Inl e \<Rightarrow> False
      | Inr tree \<Rightarrow>
          unfolds (digest_map make_digest tree) (tree_root tree) t \<and> height t \<le> depth)"

text \<open>The \<open>ActionResult\<close> that \<open>from_proto\<close> is to give for a message and the unfolded trees
  of its output directories.\<close>

definition decoded :: "proto_action_result \<Rightarrow> dir_tree list \<Rightarrow> action_result" where
  "decoded proto ts =
     \<lparr>d_exitCode = exit_code proto,
      d_stdOut = \<lparr>ob_inline = stdout_raw proto, ob_digest = stdout_digest proto\<rparr>,
      d_stdErr = \<lparr>ob_inline = stderr_raw proto, ob_digest = stderr_digest proto\<rparr>,
      d_outputFiles =
        store (map (\<lambda>fileProto. (of_path fileProto, of_digest fileProto, of_is_executable fileProto))
                 (output_files proto) @
               concat (map (\<lambda>(outputDirectoryProto, t).
                          tree_listing (od_path outputDirectoryProto @ ''/'') t)
                        (zip (output_directories proto) ts)))
          Map.empty\<rparr>"

lemma from_proto_decodes:
  assumes "list_all2 (decodes depth F M) (output_directories proto) ts"
  shows "from_proto depth F M proto = Returns (Inr (decoded proto ts))"
proof -
  let ?step = "\<lambda>outputDirectoryProto acc.
      case acc of
        Returns (Inr out) \<Rightarrow>
          (case F (od_tree_digest outputDirectoryProto) of
             Inl e \<Rightarrow> Returns (Inl e)
           | Inr tree \<Rightarrow>
               let digestMap = fold (\<lambda>child m. m(M child \<mapsto> child)) (tree_children tree) Map.empty
               in add_from_directory depth out (tree_root tree)
                    (od_path outputDirectoryProto @ ''/'') digestMap)
      | other \<Rightarrow> other"
  have inner: "fold ?step ods (Returns (Inr acc)) =
      Returns (Inr (store (concat (map (\<lambda>(od, t). tree_listing (od_path od @ ''/'') t)
        (zip ods ts'))) acc))"
    if "list_all2 (decodes depth F M) ods ts'" for ods ts' acc
    using that
  proof (induction ods ts' arbitrary: acc rule: list_all2_induct)
    case Nil
    then show ?case by (simp add: store_Nil)
  next
    case (Cons od ods t ts')
    from Cons.hyps(1) obtain tree where fetched: "F (od_tree_digest od) = Inr tree"
      and un: "unfolds (digest_map M tree) (tree_root tree) t" and h: "height t \<le> depth"
      by (auto simp: decodes_def split: sum.splits)
    have "add_from_directory depth acc (tree_root tree) (od_path od @ ''/'') (digest_map M tree) =
        Returns (Inr (store (tree_listing (od_path od @ ''/'') t) acc))"
      using un h by (rule add_from_directory_unfolds)
    then show ?case
      using Cons.IH by (simp add: fetched digest_map_def store_append)
  qed
  show ?thesis
    using inner [OF assms]
    by (simp add: from_proto_def decoded_def store_def fold_map comp_def case_prod_unfold)
qed

lemma from_proto_fetch_fails:
  assumes "output_directories proto = outputDirectoryProto # rest"
    and "F (od_tree_digest outputDirectoryProto) = Inl e"
  shows "from_proto depth F M proto = Returns (Inl e)"
  using assms by (simp add: from_proto_def fold_after_error)

lemma from_proto_missing_digest:
  assumes "output_directories proto = outputDirectoryProto # rest"
    and "F (od_tree_digest outputDirectoryProto) = Inr tree"
    and "dir_directories (tree_root tree) = node # others"
    and "digest_map M tree (dn_digest node) = None"
  shows "from_proto (Suc d) F M proto = Returns (Inl OutOfRange)"
  using assms by (simp add: from_proto_def digest_map_def fold_after_error)

text \<open>
  Claim C4, as amended. \<open>fetch_from_action_cache\<close> returns \<open>false\<close>, with no \<open>ActionResult\<close>
  and without throwing, exactly when the status of \<open>GetActionResult\<close> is \<open>NOT_FOUND\<close>; for
  every other status that is not OK it throws a runtime error with the message of the
  status. On OK it returns \<open>true\<close> without decoding when the result pointer is null. With a
  result pointer it decodes the message with \<open>from_proto\<close>: when the tree of every output
  directory is fetched and unfolds through the digests of its children, it returns \<open>true\<close>
  with the \<open>ActionResult\<close> that holds the exit code, the two output blobs, the output files
  and the files of those trees under their paths, for every bound on the depth of the
  recursion that is at least the height of the trees. When the tree of the first output
  directory cannot be fetched it throws the error of the fetch, and when the first
  subdirectory of that tree's root is not among the children it throws
  \<open>std::out_of_range\<close>.
\<close>

theorem fetch_from_action_cache_outcomes:
  "(error_code st = NOT_FOUND \<longrightarrow>
      fetch_from_action_cache depth F M (st, proto) given = Returns (Inr (False, None))) \<and>
   ((\<exists>x. fetch_from_action_cache depth F M (st, proto) given = Returns (Inr (False, x))) \<longrightarrow>
      error_code st = NOT_FOUND) \<and>
   (\<not> ok st \<and> error_code st \<noteq> NOT_FOUND \<longrightarrow>
      fetch_from_action_cache depth F M (st, proto) given =
        Returns (Inl (RuntimeError (''Action cache returned error '' @ error_message st)))) \<and>
   (ok st \<and> \<not> given \<longrightarrow>
      fetch_from_action_cache depth F M (st, proto) given = Returns (Inr (True, None))) \<and>
   (ok st \<and> given \<and> list_all2 (decodes depth F M) (output_directories proto) ts \<longrightarrow>
      fetch_from_action_cache depth F M (st, proto) given =
        Returns (Inr (True, Some (decoded proto ts)))) \<and>
   (ok st \<and> given \<and> output_directories proto = outputDirectoryProto # rest \<and>
    F (od_tree_digest outputDirectoryProto) = Inl e \<longrightarrow>
      fetch_from_action_cache depth F M (st, proto) given = Returns (Inl e)) \<and>
   (ok st \<and> given \<and> output_directories proto = outputDirectoryProto # rest \<and>
    F (od_tree_digest outputDirectoryProto) = Inr tree \<and>
    dir_directories (tree_root tree) = node # others \<and>
    digest_map M tree (dn_digest node) = None \<and> 0 < depth \<longrightarrow>
      fetch_from_action_cache depth F M (st, proto) given = Returns (Inl OutOfRange))"
proof -
  have miss: "fetch_from_action_cache depth F M (st, proto) given = Returns (Inr (False, None))"
    if "error_code st = NOT_FOUND"
    using that by (simp add: fetch_from_action_cache_def ok_def NOT_FOUND_def)
  have only: "error_code st = NOT_FOUND"
    if "fetch_from_action_cache depth F M (st, proto) given = Returns (Inr (False, x))" for x
    using that
    by (auto simp: fetch_from_action_cache_def split: if_splits call.splits sum.splits)
  have other: "fetch_from_action_cache depth F M (st, proto) given =
        Returns (Inl (RuntimeError (''Action cache returned error '' @ error_message st)))"
    if "\<not> ok st" and "error_code st \<noteq> NOT_FOUND"
    using that by (simp add: fetch_from_action_cache_def)
  have null: "fetch_from_action_cache depth F M (st, proto) given = Returns (Inr (True, None))"
    if "ok st" and "\<not> given"
    using that by (simp add: fetch_from_action_cache_def)
  have hit: "fetch_from_action_cache depth F M (st, proto) given =
        Returns (Inr (True, Some (decoded proto ts)))"
    if "ok st" and "given" and "list_all2 (decodes depth F M) (output_directories proto) ts"
    using that by (simp add: fetch_from_action_cache_def from_proto_decodes)
  have fetch: "fetch_from_action_cache depth F M (st, proto) given = Returns (Inl e)"
    if "ok st" and "given" and "output_directories proto = outputDirectoryProto # rest"
      and "F (od_tree_digest outputDirectoryProto) = Inl e"
    using that by (simp add: fetch_from_action_cache_def from_proto_fetch_fails)
  have missing: "fetch_from_action_cache depth F M (st, proto) given = Returns (Inl OutOfRange)"
    if "ok st" and "given" and "output_directories proto = outputDirectoryProto # rest"
      and "F (od_tree_digest outputDirectoryProto) = Inr tree"
      and "dir_directories (tree_root tree) = node # others"
      and "digest_map M tree (dn_digest node) = None" and "0 < depth"
  proof -
    from that(7) obtain d where "depth = Suc d"
      by (cases depth) auto
    with that show ?thesis
      by (simp add: fetch_from_action_cache_def from_proto_missing_digest)
  qed
  show ?thesis
    using miss only other null hit fetch missing by blast
qed

text \<open>
  An output directory \<open>out\<close> whose tree has the file \<open>lib.a\<close> and the subdirectory \<open>bin\<close> with
  the executable \<open>tool\<close>; the same tree without its children; and a store that holds both
  trees and nothing else. The digest function of the example reads the names of the files.
\<close>

definition example_make_digest :: "directory \<Rightarrow> digest" where
  "example_make_digest directory =
     \<lparr>dg_hash = concat (map fn_name (dir_files directory)),
      dg_size_bytes = int (length (dir_files directory))\<rparr>"

definition example_tree :: tree where
  "example_tree =
     \<lparr>tree_root =
        \<lparr>dir_files = [\<lparr>fn_name = ''lib.a'', fn_digest = \<lparr>dg_hash = ''cd34'', dg_size_bytes = 10\<rparr>,
                        fn_is_executable = False\<rparr>],
         dir_directories = [\<lparr>dn_name = ''bin'',
                              dn_digest = \<lparr>dg_hash = ''tool'', dg_size_bytes = 1\<rparr>\<rparr>]\<rparr>,
      tree_children =
        [\<lparr>dir_files = [\<lparr>fn_name = ''tool'', fn_digest = \<lparr>dg_hash = ''ef56'', dg_size_bytes = 20\<rparr>,
                         fn_is_executable = True\<rparr>],
          dir_directories = []\<rparr>]\<rparr>"

definition example_unfolded :: dir_tree where
  "example_unfolded =
     Dir [\<lparr>fn_name = ''lib.a'', fn_digest = \<lparr>dg_hash = ''cd34'', dg_size_bytes = 10\<rparr>,
           fn_is_executable = False\<rparr>]
         [(\<lparr>dn_name = ''bin'', dn_digest = \<lparr>dg_hash = ''tool'', dg_size_bytes = 1\<rparr>\<rparr>,
           Dir [\<lparr>fn_name = ''tool'', fn_digest = \<lparr>dg_hash = ''ef56'', dg_size_bytes = 20\<rparr>,
                 fn_is_executable = True\<rparr>] [])]"

definition example_fetch :: "digest \<Rightarrow> error + tree" where
  "example_fetch d =
     (if d = \<lparr>dg_hash = ''tree'', dg_size_bytes = 2\<rparr> then Inr example_tree
      else if d = \<lparr>dg_hash = ''broken'', dg_size_bytes = 2\<rparr>
      then Inr (example_tree\<lparr>tree_children := []\<rparr>)
      else Inl (RuntimeError ''blob not found''))"

definition example_output :: "string \<Rightarrow> proto_action_result" where
  "example_output h =
     example_result\<lparr>output_directories :=
        [\<lparr>od_path = ''out'', od_tree_digest = \<lparr>dg_hash = h, dg_size_bytes = 2\<rparr>\<rparr>]\<rparr>"

lemma example_decodes:
  "list_all2 (decodes 2 example_fetch example_make_digest)
     (output_directories (example_output ''tree'')) [example_unfolded]"
  by (simp add: decodes_def example_output_def example_fetch_def example_tree_def
      example_unfolded_def digest_map_def example_make_digest_def)

lemma example_decoded:
  "decoded (example_output ''tree'') [example_unfolded] =
     \<lparr>d_exitCode = 0,
      d_stdOut = \<lparr>ob_inline = ''built'', ob_digest = \<lparr>dg_hash = [], dg_size_bytes = 0\<rparr>\<rparr>,
      d_stdErr = \<lparr>ob_inline = [], ob_digest = \<lparr>dg_hash = [], dg_size_bytes = 0\<rparr>\<rparr>,
      d_outputFiles =
        [''hello.o'' \<mapsto> (\<lparr>dg_hash = ''ab12'', dg_size_bytes = 1234\<rparr>, False),
         ''out/lib.a'' \<mapsto> (\<lparr>dg_hash = ''cd34'', dg_size_bytes = 10\<rparr>, False),
         ''out/bin/tool'' \<mapsto> (\<lparr>dg_hash = ''ef56'', dg_size_bytes = 20\<rparr>, True)]\<rparr>"
  by (simp add: decoded_def example_output_def example_result_def example_unfolded_def store_def)

theorem fetch_from_action_cache_outcomes_witness:
  "fetch_from_action_cache 2 example_fetch example_make_digest
     (\<lparr>error_code = 5, error_message = ''no such action''\<rparr>, example_output ''tree'') True =
     Returns (Inr (False, None)) \<and>
   fetch_from_action_cache 2 example_fetch example_make_digest
     (\<lparr>error_code = 14, error_message = ''unavailable''\<rparr>, example_output ''tree'') True =
     Returns (Inl (RuntimeError ''Action cache returned error unavailable'')) \<and>
   fetch_from_action_cache 2 example_fetch example_make_digest
     (\<lparr>error_code = 0, error_message = []\<rparr>, example_output ''tree'') False =
     Returns (Inr (True, None)) \<and>
   fetch_from_action_cache 2 example_fetch example_make_digest
     (\<lparr>error_code = 0, error_message = []\<rparr>, example_output ''tree'') True =
     Returns (Inr (True, Some
       \<lparr>d_exitCode = 0,
        d_stdOut = \<lparr>ob_inline = ''built'', ob_digest = \<lparr>dg_hash = [], dg_size_bytes = 0\<rparr>\<rparr>,
        d_stdErr = \<lparr>ob_inline = [], ob_digest = \<lparr>dg_hash = [], dg_size_bytes = 0\<rparr>\<rparr>,
        d_outputFiles =
          [''hello.o'' \<mapsto> (\<lparr>dg_hash = ''ab12'', dg_size_bytes = 1234\<rparr>, False),
           ''out/lib.a'' \<mapsto> (\<lparr>dg_hash = ''cd34'', dg_size_bytes = 10\<rparr>, False),
           ''out/bin/tool'' \<mapsto> (\<lparr>dg_hash = ''ef56'', dg_size_bytes = 20\<rparr>, True)]\<rparr>)) \<and>
   fetch_from_action_cache 2 example_fetch example_make_digest
     (\<lparr>error_code = 0, error_message = []\<rparr>, example_output ''gone'') True =
     Returns (Inl (RuntimeError ''blob not found'')) \<and>
   fetch_from_action_cache 2 example_fetch example_make_digest
     (\<lparr>error_code = 0, error_message = []\<rparr>, example_output ''broken'') True =
     Returns (Inl OutOfRange)"
proof -
  let ?ok = "\<lparr>error_code = 0, error_message = []\<rparr>"
  note outcomes = fetch_from_action_cache_outcomes
    [where depth = 2 and F = example_fetch and M = example_make_digest]
  have 1: "fetch_from_action_cache 2 example_fetch example_make_digest
     (\<lparr>error_code = 5, error_message = ''no such action''\<rparr>, example_output ''tree'') True =
     Returns (Inr (False, None))"
    using outcomes [where st = "\<lparr>error_code = 5, error_message = ''no such action''\<rparr>"]
    by (simp add: NOT_FOUND_def)
  have 2: "fetch_from_action_cache 2 example_fetch example_make_digest
     (\<lparr>error_code = 14, error_message = ''unavailable''\<rparr>, example_output ''tree'') True =
     Returns (Inl (RuntimeError ''Action cache returned error unavailable''))"
    using outcomes [where st = "\<lparr>error_code = 14, error_message = ''unavailable''\<rparr>"]
    by (simp add: NOT_FOUND_def ok_def)
  have 3: "fetch_from_action_cache 2 example_fetch example_make_digest
     (?ok, example_output ''tree'') False = Returns (Inr (True, None))"
    using outcomes [where st = ?ok and given = False] by (simp add: ok_def)
  have 4: "fetch_from_action_cache 2 example_fetch example_make_digest
     (?ok, example_output ''tree'') True =
     Returns (Inr (True, Some (decoded (example_output ''tree'') [example_unfolded])))"
    using outcomes [where st = ?ok and given = True and proto = "example_output ''tree''"
        and ts = "[example_unfolded]"] example_decodes
    by (simp add: ok_def)
  have 5: "fetch_from_action_cache 2 example_fetch example_make_digest
     (?ok, example_output ''gone'') True = Returns (Inl (RuntimeError ''blob not found''))"
    using outcomes [where st = ?ok and given = True and proto = "example_output ''gone''"
        and outputDirectoryProto = "\<lparr>od_path = ''out'',
          od_tree_digest = \<lparr>dg_hash = ''gone'', dg_size_bytes = 2\<rparr>\<rparr>"
        and rest = "[]" and e = "RuntimeError ''blob not found''"]
    by (simp add: ok_def example_output_def example_fetch_def)
  have 6: "fetch_from_action_cache 2 example_fetch example_make_digest
     (?ok, example_output ''broken'') True = Returns (Inl OutOfRange)"
    using outcomes [where st = ?ok and given = True and proto = "example_output ''broken''"
        and outputDirectoryProto = "\<lparr>od_path = ''out'',
          od_tree_digest = \<lparr>dg_hash = ''broken'', dg_size_bytes = 2\<rparr>\<rparr>"
        and rest = "[]" and tree = "example_tree\<lparr>tree_children := []\<rparr>"
        and node = "\<lparr>dn_name = ''bin'', dn_digest = \<lparr>dg_hash = ''tool'', dg_size_bytes = 1\<rparr>\<rparr>"
        and others = "[]"]
    by (simp add: ok_def example_output_def example_fetch_def example_tree_def digest_map_def)
  from 1 2 3 4 5 6 show ?thesis
    unfolding example_decoded by blast
qed

text \<open>
  Claim C4 as stated fails on OK. The action cache answers OK with a message whose output
  directory \<open>out\<close> has a tree that names the subdirectory \<open>bin\<close> but does not hold it among
  its children: \<open>digestMap.at\<close> throws \<open>std::out_of_range\<close>, and no \<open>ActionResult\<close> is
  returned, at any depth of at least 1. When the tree cannot be fetched, the error of the
  fetch is thrown. With a null result pointer the message is not decoded.
\<close>

theorem fetch_from_action_cache_outcomes_counterexample:
  "fetch_from_action_cache 1 example_fetch example_make_digest
     (\<lparr>error_code = 0, error_message = []\<rparr>, example_output ''broken'') True =
     Returns (Inl OutOfRange) \<and>
   fetch_from_action_cache 3 example_fetch example_make_digest
     (\<lparr>error_code = 0, error_message = []\<rparr>, example_output ''broken'') True =
     Returns (Inl OutOfRange) \<and>
   fetch_from_action_cache 3 example_fetch example_make_digest
     (\<lparr>error_code = 0, error_message = []\<rparr>, example_output ''gone'') True =
     Returns (Inl (RuntimeError ''blob not found'')) \<and>
   fetch_from_action_cache 3 example_fetch example_make_digest
     (\<lparr>error_code = 0, error_message = []\<rparr>, example_output ''tree'') False =
     Returns (Inr (True, None))"
proof -
  have broken: "from_proto (Suc d) example_fetch example_make_digest (example_output ''broken'') =
      Returns (Inl OutOfRange)" for d
    by (rule from_proto_missing_digest
        [where outputDirectoryProto = "\<lparr>od_path = ''out'',
            od_tree_digest = \<lparr>dg_hash = ''broken'', dg_size_bytes = 2\<rparr>\<rparr>"
          and rest = "[]" and tree = "example_tree\<lparr>tree_children := []\<rparr>"
          and node = "\<lparr>dn_name = ''bin'', dn_digest = \<lparr>dg_hash = ''tool'', dg_size_bytes = 1\<rparr>\<rparr>"
          and others = "[]"])
      (simp_all add: example_output_def example_fetch_def example_tree_def digest_map_def)
  have gone: "from_proto 3 example_fetch example_make_digest (example_output ''gone'') =
      Returns (Inl (RuntimeError ''blob not found''))"
    by (rule from_proto_fetch_fails
        [where outputDirectoryProto = "\<lparr>od_path = ''out'',
            od_tree_digest = \<lparr>dg_hash = ''gone'', dg_size_bytes = 2\<rparr>\<rparr>" and rest = "[]"])
      (simp_all add: example_output_def example_fetch_def)
  show ?thesis
    using broken [of 0] broken [of 2] gone
    by (simp add: fetch_from_action_cache_def ok_def eval_nat_numeral)
qed

end
